theory Spec2Isabelle
  imports Complex_Main "HOL-Library.Word" "HOL-Library.Sublist" "HOL-Library.Log_Nat"
begin

unbundle bit_operations_syntax

section \<open>The FAU201 device class over the CP2130 bridge\<close>

text \<open>
  The development embeds \<^verbatim>\<open>fau201device.cpp\<close> and \<^verbatim>\<open>fau201device.h\<close>.
  C++ \<^verbatim>\<open>uint8_t\<close> and \<^verbatim>\<open>uint16_t\<close> are \<open>8 word\<close> and \<open>16 word\<close>,
  \<^verbatim>\<open>std::string\<close> is \<open>string\<close>. The caller's \<^verbatim>\<open>int &errcnt\<close> is an \<open>int\<close>;
  C++ leaves \<^verbatim>\<open>++errcnt\<close> undefined at \<^verbatim>\<open>INT_MAX\<close>, so statements about the
  increment are made below that value.
\<close>

definition INT_MAX :: int where
  "INT_MAX = 2147483647"

subsection \<open>Hardware revision\<close>

text \<open>
  Modelled from the spec: the struct \<^verbatim>\<open>CP2130::USBConfig\<close> is declared in
  \<^verbatim>\<open>cp2130.h\<close>, which is not among the sources. The spec requires the record to expose
  a major-release and a minor-release field; \<^verbatim>\<open>hardwareRevision\<close> prints the minor
  release through \<^verbatim>\<open>static_cast<int>\<close>, as one does for a \<^verbatim>\<open>uint8_t\<close>, so both
  are taken as unsigned bytes. Further fields live in the record's extension.
\<close>

record USBConfig =
  majrel :: "8 word"
  minrel :: "8 word"

text \<open>
  \<^verbatim>\<open>stream << n\<close> for a non-negative \<^verbatim>\<open>int\<close>: its decimal digits, most
  significant first, no padding.
\<close>

fun decimal :: "nat \<Rightarrow> string" where
  "decimal n =
     (if n < 10 then [char_of (48 + n)]
      else decimal (n div 10) @ [char_of (48 + n mod 10)])"

declare decimal.simps [simp del]

definition ostream_int :: "int \<Rightarrow> string" where
  "ostream_int i = (if i < 0 then CHR ''-'' # decimal (nat (- i)) else decimal (nat i))"

text \<open>
  \<^verbatim>\<open>hardwareRevision\<close>: the two \<^verbatim>\<open>if\<close> statements run one after the other on the
  string \<^verbatim>\<open>revision\<close>. In \<^verbatim>\<open>config.majrel + 'A' - 2\<close> the byte is promoted to
  \<^verbatim>\<open>int\<close> before the arithmetic and the cast to \<^verbatim>\<open>char\<close> keeps the low eight bits.
\<close>

definition hardwareRevision :: "'a USBConfig_scheme \<Rightarrow> string" where
  "hardwareRevision config =
     (let revision = [];
          revision =
            (if 1 < majrel config \<and> majrel config \<le> 27
             then revision @ [char_of (uint (majrel config) + of_char (CHR ''A'') - 2)]
             else revision);
          revision =
            (if majrel config = 1 \<or> minrel config \<noteq> 0
             then revision @ ostream_int (uint (minrel config))
             else revision)
      in revision)"

subsection \<open>Floating point, as far as the voltage conversion uses it\<close>

text \<open>
  \<^verbatim>\<open>float\<close> is IEEE 754 binary32 and \<^verbatim>\<open>double\<close> is binary64, every operation
  is rounded once to its own type, to nearest with ties to even (no excess precision, no
  fused operations). A \<^verbatim>\<open>float\<close> variable is its three bit fields.
\<close>

record float32 =
  sign :: bool
  biased_exp :: "8 word"
  fraction :: "23 word"

text \<open>
  A decoded value: not a number, an infinity with its sign, or the finite number
  \<open>(-1)\<^sup>s \<times> m \<times> 2\<^sup>e\<close> given by sign, integer significand and exponent.
\<close>

datatype fp = NaN | Infty bool | Fin bool nat int

definition decode32 :: "float32 \<Rightarrow> fp" where
  "decode32 x =
     (if biased_exp x = 255 then (if fraction x = 0 then Infty (sign x) else NaN)
      else if biased_exp x = 0 then Fin (sign x) (unat (fraction x)) (- 149)
      else Fin (sign x) (2 ^ 23 + unat (fraction x)) (uint (biased_exp x) - 150))"

definition dyadic :: "bool \<Rightarrow> nat \<Rightarrow> int \<Rightarrow> real" where
  "dyadic s m e = (if s then - 1 else 1) * real m * 2 powi e"

fun fp_real :: "fp \<Rightarrow> real option" where
  "fp_real (Fin s m e) = Some (dyadic s m e)"
| "fp_real (Infty s) = None"
| "fp_real NaN = None"

text \<open>The \<^verbatim>\<open><\<close> of IEEE 754: false whenever an operand is not a number.\<close>

fun fp_less :: "fp \<Rightarrow> fp \<Rightarrow> bool" where
  "fp_less NaN y = False"
| "fp_less (Infty s) NaN = False"
| "fp_less (Infty s) (Infty t) = (s \<and> \<not> t)"
| "fp_less (Infty s) (Fin t n f) = s"
| "fp_less (Fin s m e) NaN = False"
| "fp_less (Fin s m e) (Infty t) = (\<not> t)"
| "fp_less (Fin s m e) (Fin t n f) = (dyadic s m e < dyadic t n f)"

record format =
  prec :: nat
  emin :: int
  emax :: int

definition binary32 :: format where
  "binary32 = \<lparr>prec = 24, emin = - 126, emax = 127\<rparr>"

definition binary64 :: format where
  "binary64 = \<lparr>prec = 53, emin = - 1022, emax = 1023\<rparr>"

text \<open>
  \<open>rne m k\<close> drops the low \<open>k\<close> bits of \<open>m\<close>, rounding to nearest, a tie to the even
  neighbour.
\<close>

definition rne :: "nat \<Rightarrow> nat \<Rightarrow> nat" where
  "rne m k =
     (let q = m div 2 ^ k; r = m mod 2 ^ k
      in if 2 ^ k < 2 * r \<or> (2 * r = 2 ^ k \<and> odd q) then q + 1 else q)"

text \<open>
  Rounding the exact value \<open>(-1)\<^sup>s \<times> m \<times> 2\<^sup>e\<close> to a format. The leading bit of the
  value has weight \<open>2\<close> to the \<open>floorlog 2 m + e - 1\<close>; the unit in the last place sits
  \<open>prec - 1\<close> binary places below it, but never below that of the subnormal range. A
  rounded magnitude of \<open>2\<close> to the \<open>emax + 1\<close> or more overflows to an infinity.
\<close>

definition ulp_exp :: "format \<Rightarrow> nat \<Rightarrow> int \<Rightarrow> int" where
  "ulp_exp F m e = max (int (floorlog 2 m) + e - 1) (emin F) - int (prec F) + 1"

definition round_sig :: "format \<Rightarrow> nat \<Rightarrow> int \<Rightarrow> nat \<times> int" where
  "round_sig F m e =
     (let q = ulp_exp F m e
      in if q \<le> e then (m, e) else (rne m (nat (q - e)), q))"

definition fp_round :: "format \<Rightarrow> bool \<Rightarrow> nat \<Rightarrow> int \<Rightarrow> fp" where
  "fp_round F s m e =
     (case round_sig F m e of
        (n, d) \<Rightarrow> if n \<noteq> 0 \<and> emax F < int (floorlog 2 n) + d - 1 then Infty s else Fin s n d)"

fun fp_mul :: "format \<Rightarrow> fp \<Rightarrow> fp \<Rightarrow> fp" where
  "fp_mul F NaN y = NaN"
| "fp_mul F (Infty s) NaN = NaN"
| "fp_mul F (Infty s) (Infty t) = Infty (s \<noteq> t)"
| "fp_mul F (Infty s) (Fin t n f) = (if n = 0 then NaN else Infty (s \<noteq> t))"
| "fp_mul F (Fin s m e) NaN = NaN"
| "fp_mul F (Fin s m e) (Infty t) = (if m = 0 then NaN else Infty (s \<noteq> t))"
| "fp_mul F (Fin s m e) (Fin t n f) = fp_round F (s \<noteq> t) (m * n) (e + f)"

fun fp_add :: "format \<Rightarrow> fp \<Rightarrow> fp \<Rightarrow> fp" where
  "fp_add F NaN y = NaN"
| "fp_add F (Infty s) NaN = NaN"
| "fp_add F (Infty s) (Infty t) = (if s = t then Infty s else NaN)"
| "fp_add F (Infty s) (Fin t n f) = Infty s"
| "fp_add F (Fin s m e) NaN = NaN"
| "fp_add F (Fin s m e) (Infty t) = Infty t"
| "fp_add F (Fin s m e) (Fin t n f) =
     (let g = min e f;
          a = (if s then - 1 else 1) * int m * 2 ^ nat (e - g);
          b = (if t then - 1 else 1) * int n * 2 ^ nat (f - g);
          c = a + b
      in if c = 0 then Fin (s \<and> t) 0 g else fp_round F (c < 0) (nat \<bar>c\<bar>) g)"

text \<open>
  The conversion of an \<^verbatim>\<open>int\<close> operand to \<^verbatim>\<open>float\<close> (usual arithmetic
  conversions), and the \<^verbatim>\<open>double\<close> literal \<^verbatim>\<open>0.5\<close>. A \<^verbatim>\<open>float\<close> operand of a
  \<^verbatim>\<open>double\<close> operation is promoted with its value unchanged, so promotion does not
  appear.
\<close>

definition int_to_float :: "int \<Rightarrow> fp" where
  "int_to_float i = fp_round binary32 (i < 0) (nat \<bar>i\<bar>) 0"

definition half :: fp where
  "half = Fin False 1 (- 1)"

text \<open>
  \<^verbatim>\<open>static_cast<uint16_t>\<close> of a floating value truncates towards zero. C++ defines
  the conversion only when the truncated value fits the destination type; \<open>None\<close>
  stands for the undefined cases.
\<close>

fun fp_to_uint16 :: "fp \<Rightarrow> 16 word option" where
  "fp_to_uint16 (Fin s m e) =
     (let t = (if 0 \<le> e then m * 2 ^ nat e else m div 2 ^ nat (- e))
      in if t = 0 then Some 0 else if s \<or> 65535 < t then None else Some (of_nat t))"
| "fp_to_uint16 (Infty s) = None"
| "fp_to_uint16 NaN = None"

subsection \<open>The CP2130 bridge, as the device class consumes it\<close>

text \<open>
  Modelled from the spec: the class \<^verbatim>\<open>CP2130\<close> (files \<^verbatim>\<open>cp2130.h\<close> and
  \<^verbatim>\<open>cp2130.cpp\<close>) is not among the sources. Its SPI settings are kept symbolic:
  chip-select drive, clock frequency, clock polarity and clock phase, with the constant
  names the device class uses. Channel numbers and endpoint addresses are bytes.
\<close>

datatype CSMode = CSMODEOD | CSMODEPP

datatype CFrq = CFRQ12M | CFRQ6M | CFRQ3M | CFRQ1500K | CFRQ750K | CFRQ375K | CFRQ187K5 | CFRQ93K8

datatype CPol = CPOL0 | CPOL1

datatype CPha = CPHA0 | CPHA1

record SPIMode =
  csmode :: CSMode
  cfrq :: CFrq
  cpol :: CPol
  cpha :: CPha

text \<open>
  The error accumulator \<^verbatim>\<open>(int &errcnt, std::string &errstr)\<close> that the caller
  passes by reference into every fallible operation.
\<close>

type_synonym errors = "int \<times> string"

text \<open>
  The bridge is a parameter of the model: a record of its methods as functions over an
  arbitrary bridge state \<open>'b\<close>. A method that takes the error accumulator returns the
  accumulator it leaves behind; nothing is assumed about what it does with it. The four
  status codes of \<^verbatim>\<open>open\<close> are constants of \<^verbatim>\<open>cp2130.h\<close> and are parameters too.
\<close>

record 'b CP2130 =
  SUCCESS :: int
  ERROR_INIT :: int
  ERROR_NOT_FOUND :: int
  ERROR_BUSY :: int
  cp_disconnected :: "'b \<Rightarrow> bool"
  cp_isOpen :: "'b \<Rightarrow> bool"
  cp_close :: "'b \<Rightarrow> 'b"
  cp_open :: "16 word \<Rightarrow> 16 word \<Rightarrow> string \<Rightarrow> 'b \<Rightarrow> int \<times> 'b"
  cp_getSiliconVersion :: "'b \<Rightarrow> errors \<Rightarrow> (8 word \<times> 8 word) \<times> 'b \<times> errors"
  cp_getManufacturerDesc :: "'b \<Rightarrow> errors \<Rightarrow> 16 word list \<times> 'b \<times> errors"
  cp_getProductDesc :: "'b \<Rightarrow> errors \<Rightarrow> 16 word list \<times> 'b \<times> errors"
  cp_getSerialDesc :: "'b \<Rightarrow> errors \<Rightarrow> 16 word list \<times> 'b \<times> errors"
  cp_getUSBConfig :: "'b \<Rightarrow> errors \<Rightarrow> USBConfig \<times> 'b \<times> errors"
  cp_reset :: "'b \<Rightarrow> errors \<Rightarrow> 'b \<times> errors"
  cp_configureSPIMode :: "8 word \<Rightarrow> SPIMode \<Rightarrow> 'b \<Rightarrow> errors \<Rightarrow> 'b \<times> errors"
  cp_disableSPIDelays :: "8 word \<Rightarrow> 'b \<Rightarrow> errors \<Rightarrow> 'b \<times> errors"
  cp_selectCS :: "8 word \<Rightarrow> 'b \<Rightarrow> errors \<Rightarrow> 'b \<times> errors"
  cp_disableCS :: "8 word \<Rightarrow> 'b \<Rightarrow> errors \<Rightarrow> 'b \<times> errors"
  cp_spiWrite :: "8 word list \<Rightarrow> 8 word \<Rightarrow> 'b \<Rightarrow> errors \<Rightarrow> 'b \<times> errors"
  cp_listDevices :: "16 word \<Rightarrow> 16 word \<Rightarrow> errors \<Rightarrow> string list \<times> errors"

subsection \<open>Program state\<close>

text \<open>
  Every call that leaves the device class, to a bridge method or to \<^verbatim>\<open>usleep\<close>, is
  recorded with its arguments, oldest first.
\<close>

datatype call =
    Open "16 word" "16 word" string
  | Close
  | GetSiliconVersion
  | GetManufacturerDesc
  | GetProductDesc
  | GetSerialDesc
  | GetUSBConfig
  | Reset
  | ConfigureSPIMode "8 word" SPIMode
  | DisableSPIDelays "8 word"
  | SelectCS "8 word"
  | DisableCS "8 word"
  | SpiWrite "8 word list" "8 word"
  | ListDevices "16 word" "16 word"
  | Usleep nat

text \<open>
  The state a member function works on: the member \<^verbatim>\<open>cp2130_\<close> (here
  \<open>cp2130\<close>), the caller's two
  accumulator variables, and the record of calls.
\<close>

record 'b world =
  cp2130 :: 'b
  errcnt :: int
  errstr :: string
  calls :: "call list"

definition invoke ::
  "call \<Rightarrow> ('b \<Rightarrow> errors \<Rightarrow> 'b \<times> errors) \<Rightarrow> 'b world \<Rightarrow> 'b world" where
  "invoke c method w =
     (case method (cp2130 w) (errcnt w, errstr w) of
        (b, n, e) \<Rightarrow> w\<lparr>cp2130 := b, errcnt := n, errstr := e, calls := calls w @ [c]\<rparr>)"


definition usleep :: "nat \<Rightarrow> 'b world \<Rightarrow> 'b world" where
  "usleep us w = w\<lparr>calls := calls w @ [Usleep us]\<rparr>"

subsection \<open>The device class\<close>

definition VID :: "16 word" where "VID = 0x10C4"

definition PID :: "16 word" where "PID = 0x8C46"

definition EPOUT :: "8 word" where "EPOUT = 0x01"

definition disconnected :: "'b CP2130 \<Rightarrow> 'b world \<Rightarrow> bool" where
  "disconnected B w = cp_disconnected B (cp2130 w)"

definition isOpen :: "'b CP2130 \<Rightarrow> 'b world \<Rightarrow> bool" where
  "isOpen B w = cp_isOpen B (cp2130 w)"

definition close :: "'b CP2130 \<Rightarrow> 'b world \<Rightarrow> 'b world" where
  "close B w = w\<lparr>cp2130 := cp_close B (cp2130 w), calls := calls w @ [Close]\<rparr>"







text \<open>
  \<^verbatim>\<open>open\<close> takes the serial by const reference, the empty string being its default:
  an omitted serial is the empty list.
\<close>

definition "open" :: "'b CP2130 \<Rightarrow> string \<Rightarrow> 'b world \<Rightarrow> int \<times> 'b world" where
  "open B serial w =
     (case cp_open B VID PID serial (cp2130 w) of
        (status, b) \<Rightarrow> (status, w\<lparr>cp2130 := b, calls := calls w @ [Open VID PID serial]\<rparr>))"


definition configureSPIMode :: "'b CP2130 \<Rightarrow> 8 word \<Rightarrow> SPIMode \<Rightarrow> 'b world \<Rightarrow> 'b world" where
  "configureSPIMode B channel mode w =
     invoke (ConfigureSPIMode channel mode) (cp_configureSPIMode B channel mode) w"

definition disableSPIDelays :: "'b CP2130 \<Rightarrow> 8 word \<Rightarrow> 'b world \<Rightarrow> 'b world" where
  "disableSPIDelays B channel w =
     invoke (DisableSPIDelays channel) (cp_disableSPIDelays B channel) w"

definition selectCS :: "'b CP2130 \<Rightarrow> 8 word \<Rightarrow> 'b world \<Rightarrow> 'b world" where
  "selectCS B channel w = invoke (SelectCS channel) (cp_selectCS B channel) w"

definition disableCS :: "'b CP2130 \<Rightarrow> 8 word \<Rightarrow> 'b world \<Rightarrow> 'b world" where
  "disableCS B channel w = invoke (DisableCS channel) (cp_disableCS B channel) w"

definition spiWrite :: "'b CP2130 \<Rightarrow> 8 word list \<Rightarrow> 8 word \<Rightarrow> 'b world \<Rightarrow> 'b world" where
  "spiWrite B data endpointAddr w =
     invoke (SpiWrite data endpointAddr) (cp_spiWrite B data endpointAddr) w"

text \<open>\<^verbatim>\<open>setup\<close>: six statements in sequence, none of them guarded.\<close>

definition "setup" :: "'b CP2130 \<Rightarrow> 'b world \<Rightarrow> 'b world" where
  "setup B w =
     (let mode = \<lparr>csmode = CSMODEPP, cfrq = CFRQ750K, cpol = CPOL0, cpha = CPHA0\<rparr>;
          w = configureSPIMode B 0 mode w;
          w = disableSPIDelays B 0 w;
          w = selectCS B 0 w;
          config = [0x70, 0x00, 0x00];
          w = spiWrite B config EPOUT w;
          w = usleep 100 w;
          w = disableCS B 0 w
      in w)"

text \<open>
  The limits of \<^verbatim>\<open>setVoltage\<close>. \<^verbatim>\<open>VOLTAGE_MIN\<close> is positive zero.
  \<^verbatim>\<open>VOLTAGE_MAX\<close> is the literal \<^verbatim>\<open>4.095\<close> converted to \<^verbatim>\<open>float\<close>, the bit
  pattern \<^verbatim>\<open>0x40830A3D\<close>: exponent field \<^verbatim>\<open>0x81\<close>, fraction \<^verbatim>\<open>0x030A3D\<close>, the
  number 8587837 / 2097152.
\<close>

definition VOLTAGE_MIN :: float32 where
  "VOLTAGE_MIN = \<lparr>sign = False, biased_exp = 0, fraction = 0\<rparr>"

definition VOLTAGE_MAX :: float32 where
  "VOLTAGE_MAX = \<lparr>sign = False, biased_exp = 0x81, fraction = 0x030A3D\<rparr>"

text \<open>
  The expression \<^verbatim>\<open>static_cast<uint16_t>(voltage * 1000 + 0.5)\<close>: a
  \<^verbatim>\<open>float\<close> product, a \<^verbatim>\<open>double\<close> sum, a truncation.
\<close>

definition voltageCode_expr :: "float32 \<Rightarrow> 16 word option" where
  "voltageCode_expr voltage =
     fp_to_uint16 (fp_add binary64 (fp_mul binary32 (decode32 voltage) (int_to_float 1000)) half)"

text \<open>
  The two data bytes of the command. In \<^verbatim>\<open>voltageCode >> 4\<close> and
  \<^verbatim>\<open>voltageCode << 4\<close> the operand is promoted to \<^verbatim>\<open>int\<close>, 32 bits wide, and
  the cast to \<^verbatim>\<open>uint8_t\<close> keeps the low eight bits.
\<close>

definition upper_byte :: "16 word \<Rightarrow> 8 word" where
  "upper_byte voltageCode = ucast (drop_bit 4 (ucast voltageCode :: 32 word))"

definition lower_byte :: "16 word \<Rightarrow> 8 word" where
  "lower_byte voltageCode = ucast (push_bit 4 (ucast voltageCode :: 32 word))"

text \<open>
  \<^verbatim>\<open>setVoltage\<close>. Where C++ leaves the conversion to \<^verbatim>\<open>uint16_t\<close> undefined, the
  compiled code still yields some 16-bit value; the model takes that value as the
  parameter \<open>indefinite\<close>.
\<close>

definition setVoltage :: "'b CP2130 \<Rightarrow> 16 word \<Rightarrow> float32 \<Rightarrow> 'b world \<Rightarrow> 'b world" where
  "setVoltage B indefinite voltage w =
     (if fp_less (decode32 voltage) (decode32 VOLTAGE_MIN)
         \<or> fp_less (decode32 VOLTAGE_MAX) (decode32 voltage)
      then w\<lparr>errcnt := errcnt w + 1,
             errstr := errstr w @
               ''In setVoltage(): Voltage must be between 0 and 4.095.'' @ [CHR 0x0A]\<rparr>
      else
        let w = selectCS B 0 w;
            voltageCode = (case voltageCode_expr voltage of Some c \<Rightarrow> c | None \<Rightarrow> indefinite);
            set = [0x30, upper_byte voltageCode, lower_byte voltageCode];
            w = spiWrite B set EPOUT w;
            w = usleep 100 w;
            w = disableCS B 0 w
        in w)"


subsection \<open>Auxiliary notions for the statements\<close>

text \<open>The number a string of decimal digits denotes.\<close>

definition decimal_value :: "string \<Rightarrow> nat" where
  "decimal_value cs = foldl (\<lambda>a c. 10 * a + (of_char c - 48)) 0 cs"

text \<open>A \<^verbatim>\<open>float\<close> from its 32-bit pattern, to write inputs as hexadecimal words.\<close>

definition float32_of_bits :: "32 word \<Rightarrow> float32" where
  "float32_of_bits b =
     \<lparr>sign = bit b 31, biased_exp = ucast (drop_bit 23 b), fraction = ucast b\<rparr>"

text \<open>
  The specification's reading of the DAC word: byte 0 shifted left by four, or-ed with
  byte 1 shifted right by four.
\<close>

definition reassemble :: "8 word \<Rightarrow> 8 word \<Rightarrow> 16 word" where
  "reassemble byte0 byte1 = push_bit 4 (ucast byte0) OR drop_bit 4 (ucast byte1)"

text \<open>
  Modelled from the spec: \<^verbatim>\<open>CP2130::open\<close> is not among the sources. The
  specification's contract for it: it returns a status code from the closed set
  success, initialization failure, not found, busy, and a failure leaves the handle
  unusable.
\<close>

definition open_contract :: "'b CP2130 \<Rightarrow> bool" where
  "open_contract B =
     (\<forall>vid pid serial b.
        fst (cp_open B vid pid serial b) \<in> {SUCCESS B, ERROR_INIT B, ERROR_NOT_FOUND B, ERROR_BUSY B}
        \<and> (fst (cp_open B vid pid serial b) \<noteq> SUCCESS B
             \<longrightarrow> \<not> cp_isOpen B (snd (cp_open B vid pid serial b))))"

text \<open>
  Modelled from the spec: \<^verbatim>\<open>CP2130::close\<close> is not among the sources. The
  specification's contract for it: it releases the handle if held, and is a no-op if
  not held.
\<close>

definition close_contract :: "'b CP2130 \<Rightarrow> bool" where
  "close_contract B =
     (\<forall>b. \<not> cp_isOpen B (cp_close B b) \<and> (\<not> cp_isOpen B b \<longrightarrow> cp_close B b = b))"






definition accumulator :: "'b world \<Rightarrow> errors" where
  "accumulator w = (errcnt w, errstr w)"

text \<open>
  A bridge stub for the examples. Its state is whether the handle is held. Only the
  unit with serial "0001" is attached; every accumulating method reports one error
  when the handle is not held and none when it is.
\<close>

definition report :: "string \<Rightarrow> bool \<Rightarrow> errors \<Rightarrow> errors" where
  "report name held a = (if held then a else (fst a + 1, snd a @ name))"

definition stub :: "bool CP2130" where
  "stub =
     \<lparr>SUCCESS = 0, ERROR_INIT = 1, ERROR_NOT_FOUND = 2, ERROR_BUSY = 3,
      cp_disconnected = (\<lambda>b. False),
      cp_isOpen = (\<lambda>b. b),
      cp_close = (\<lambda>b. False),
      cp_open = (\<lambda>vid pid serial b.
        if vid = 0x10C4 \<and> pid = 0x8C46 \<and> (serial = [] \<or> serial = ''0001'')
        then (0, True) else (2, False)),
      cp_getSiliconVersion = (\<lambda>b a. ((0, 0), b, report ''getSiliconVersion'' b a)),
      cp_getManufacturerDesc = (\<lambda>b a. ([], b, report ''getManufacturerDesc'' b a)),
      cp_getProductDesc = (\<lambda>b a. ([], b, report ''getProductDesc'' b a)),
      cp_getSerialDesc = (\<lambda>b a. ([], b, report ''getSerialDesc'' b a)),
      cp_getUSBConfig = (\<lambda>b a. (\<lparr>majrel = 2, minrel = 5\<rparr>, b, report ''getUSBConfig'' b a)),
      cp_reset = (\<lambda>b a. (b, report ''reset'' b a)),
      cp_configureSPIMode = (\<lambda>ch mode b a. (b, report ''configureSPIMode'' b a)),
      cp_disableSPIDelays = (\<lambda>ch b a. (b, report ''disableSPIDelays'' b a)),
      cp_selectCS = (\<lambda>ch b a. (b, report ''selectCS'' b a)),
      cp_disableCS = (\<lambda>ch b a. (b, report ''disableCS'' b a)),
      cp_spiWrite = (\<lambda>data ep b a. (b, report ''spiWrite'' b a)),
      cp_listDevices = (\<lambda>vid pid a. ([''0001''], a))\<rparr>"

definition fresh :: "bool world" where
  "fresh = \<lparr>cp2130 = False, errcnt = 0, errstr = [], calls = []\<rparr>"

section \<open>Supporting lemmas\<close>

subsection \<open>Powers of two and rounding to nearest\<close>

lemma powi_split: "d \<le> c \<Longrightarrow> (2::real) powi c = 2 ^ nat (c - d) * 2 powi d"
proof -
  assume a: "d \<le> c"
  define k where "k = nat (c - d)"
  have "c = int k + d" using a by (simp add: k_def)
  then have "(2::real) powi c = 2 powi (int k + d)" by simp
  also have "\<dots> = 2 powi int k * 2 powi d" by (simp add: power_int_add)
  also have "\<dots> = 2 ^ k * 2 powi d" by simp
  finally show ?thesis by (simp only: k_def)
qed

lemma rne_le: "m \<le> j * 2 ^ k \<Longrightarrow> rne m k \<le> j"
proof -
  assume a: "m \<le> j * 2 ^ k"
  show ?thesis
  proof (cases "m = j * 2 ^ k")
    case True
    then show ?thesis by (simp add: rne_def)
  next
    case False
    with a have "m < j * 2 ^ k" by simp
    then have "m div 2 ^ k < j" by (simp add: less_mult_imp_div_less)
    then show ?thesis by (simp add: rne_def Let_def)
  qed
qed

lemma rne_ge: "j * 2 ^ k \<le> m \<Longrightarrow> j \<le> rne m k"
proof -
  assume "j * 2 ^ k \<le> m"
  then have "j * 2 ^ k div 2 ^ k \<le> m div 2 ^ k" by (rule div_le_mono)
  then have "j \<le> m div 2 ^ k" by simp
  then show ?thesis by (simp add: rne_def Let_def)
qed

lemma scaled_le_iff:
  "e \<le> q \<Longrightarrow> (real m * 2 powi e \<le> real J * 2 powi q) = (m \<le> J * 2 ^ nat (q - e))"
proof -
  assume "e \<le> q"
  then have "(2::real) powi q = 2 ^ nat (q - e) * 2 powi e" by (rule powi_split)
  then have "(real m * 2 powi e \<le> real J * 2 powi q) = (real m * 2 powi e \<le> real (J * 2 ^ nat (q - e)) * 2 powi e)"
    by simp
  also have "\<dots> = (real m \<le> real (J * 2 ^ nat (q - e)))"
    by (simp only: mult_le_cancel_right_pos zero_less_power_int zero_less_numeral)
  finally show ?thesis by (simp only: of_nat_le_iff)
qed

lemma scaled_ge_iff:
  "e \<le> q \<Longrightarrow> (real J * 2 powi q \<le> real m * 2 powi e) = (J * 2 ^ nat (q - e) \<le> m)"
proof -
  assume "e \<le> q"
  then have "(2::real) powi q = 2 ^ nat (q - e) * 2 powi e" by (rule powi_split)
  then have "(real J * 2 powi q \<le> real m * 2 powi e) = (real (J * 2 ^ nat (q - e)) * 2 powi e \<le> real m * 2 powi e)"
    by simp
  also have "\<dots> = (real (J * 2 ^ nat (q - e)) \<le> real m)"
    by (simp only: mult_le_cancel_right_pos zero_less_power_int zero_less_numeral)
  finally show ?thesis by (simp only: of_nat_le_iff)
qed

lemma regrid: "q \<le> c \<Longrightarrow> real j * 2 powi c = real (j * 2 ^ nat (c - q)) * 2 powi q"
  by (simp add: powi_split [of q c])

lemma round_sig_le:
  assumes "real m * 2 powi e \<le> real j * 2 powi c" and "ulp_exp F m e \<le> c"
    and "round_sig F m e = (n, d)"
  shows "real n * 2 powi d \<le> real j * 2 powi c"
proof (cases "ulp_exp F m e \<le> e")
  case True
  with assms(3) have "n = m" "d = e" by (simp_all add: round_sig_def Let_def)
  with assms(1) show ?thesis by simp
next
  case False
  define q where "q = ulp_exp F m e"
  define k where "k = nat (q - e)"
  from False assms(3) have nd: "n = rne m k" "d = q" by (auto simp add: round_sig_def Let_def q_def k_def)
  have eq: "e \<le> q" using False by (simp add: q_def)
  have qc: "q \<le> c" using assms(2) by (simp add: q_def)
  define J where "J = j * 2 ^ nat (c - q)"
  have "real m * 2 powi e \<le> real J * 2 powi q"
    using assms(1) by (simp only: J_def regrid [OF qc, symmetric])
  then have "m \<le> J * 2 ^ k" by (simp only: scaled_le_iff [OF eq] k_def)
  then have "rne m k \<le> J" by (rule rne_le)
  then have "real (rne m k) * 2 powi q \<le> real J * 2 powi q"
    by (simp only: mult_le_cancel_right_pos zero_less_power_int zero_less_numeral of_nat_le_iff)
  then show ?thesis by (simp only: nd J_def regrid [OF qc, symmetric])
qed

lemma round_sig_ge:
  assumes "real j * 2 powi c \<le> real m * 2 powi e" and "ulp_exp F m e \<le> c"
    and "round_sig F m e = (n, d)"
  shows "real j * 2 powi c \<le> real n * 2 powi d"
proof (cases "ulp_exp F m e \<le> e")
  case True
  with assms(3) have "n = m" "d = e" by (simp_all add: round_sig_def Let_def)
  with assms(1) show ?thesis by simp
next
  case False
  define q where "q = ulp_exp F m e"
  define k where "k = nat (q - e)"
  from False assms(3) have nd: "n = rne m k" "d = q" by (auto simp add: round_sig_def Let_def q_def k_def)
  have eq: "e \<le> q" using False by (simp add: q_def)
  have qc: "q \<le> c" using assms(2) by (simp add: q_def)
  define J where "J = j * 2 ^ nat (c - q)"
  have "real J * 2 powi q \<le> real m * 2 powi e"
    using assms(1) by (simp only: J_def regrid [OF qc, symmetric])
  then have "J * 2 ^ k \<le> m" by (simp only: scaled_ge_iff [OF eq] k_def)
  then have "J \<le> rne m k" by (rule rne_ge)
  then have "real J * 2 powi q \<le> real (rne m k) * 2 powi q"
    by (simp only: mult_le_cancel_right_pos zero_less_power_int zero_less_numeral of_nat_le_iff)
  then show ?thesis by (simp only: nd J_def regrid [OF qc, symmetric])
qed

lemma rne_near: "2 * \<bar>int (rne m k * 2 ^ k) - int m\<bar> \<le> 2 ^ k"
proof -
  define q where "q = m div 2 ^ k"
  define r where "r = m mod 2 ^ k"
  have m: "m = q * 2 ^ k + r" using div_mult_mod_eq [of m "2 ^ k"] by (simp only: q_def r_def)
  have r: "r < 2 ^ k" by (simp add: r_def)
  show ?thesis
  proof (cases "2 ^ k < 2 * r \<or> (2 * r = 2 ^ k \<and> odd q)")
    case True
    then have "rne m k = q + 1" by (simp add: rne_def Let_def q_def r_def)
    then have "int (rne m k * 2 ^ k) - int m = 2 ^ k - int r" by (simp add: m algebra_simps)
    moreover have "2 ^ k \<le> 2 * r" using True by auto
    then have "int (2 ^ k) \<le> int (2 * r)" by (simp only: of_nat_le_iff)
    then have "(2::int) ^ k \<le> 2 * int r" by simp
    moreover have "int r < 2 ^ k" using r by (metis of_nat_less_iff of_nat_numeral of_nat_power)
    ultimately show ?thesis by simp
  next
    case False
    then have "rne m k = q" by (simp add: rne_def Let_def q_def r_def)
    then have "int (rne m k * 2 ^ k) - int m = - int r" by (simp add: m)
    moreover have "2 * r \<le> 2 ^ k" using False by simp
    then have "int (2 * r) \<le> int (2 ^ k)" by (simp only: of_nat_le_iff)
    then have "2 * int r \<le> 2 ^ k" by simp
    ultimately show ?thesis by simp
  qed
qed

lemma round_sig_near:
  assumes "round_sig F m e = (n, d)"
  shows "\<bar>real n * 2 powi d - real m * 2 powi e\<bar> \<le> 2 powi (ulp_exp F m e) / 2"
proof (cases "ulp_exp F m e \<le> e")
  case True
  with assms have "n = m" "d = e" by (simp_all add: round_sig_def Let_def)
  then show ?thesis by simp
next
  case False
  define q where "q = ulp_exp F m e"
  define k where "k = nat (q - e)"
  from False assms have nd: "n = rne m k" "d = q"
    by (auto simp add: round_sig_def Let_def q_def k_def)
  have eq: "e \<le> q" using False by (simp add: q_def)
  have pq: "(2::real) powi q = 2 ^ k * 2 powi e" unfolding k_def using eq by (rule powi_split)
  have "real n * 2 powi d - real m * 2 powi e = (real (rne m k * 2 ^ k) - real m) * 2 powi e"
    by (simp add: nd pq algebra_simps)
  also have "\<dots> = real_of_int (int (rne m k * 2 ^ k) - int m) * 2 powi e" by simp
  finally have "\<bar>real n * 2 powi d - real m * 2 powi e\<bar>
      = real_of_int \<bar>int (rne m k * 2 ^ k) - int m\<bar> * 2 powi e"
    by (simp add: abs_mult)
  moreover have "real_of_int (2 * \<bar>int (rne m k * 2 ^ k) - int m\<bar>) \<le> real_of_int (2 ^ k)"
    using rne_near [of m k] by (simp only: of_int_le_iff)
  then have "real_of_int \<bar>int (rne m k * 2 ^ k) - int m\<bar> \<le> 2 ^ k / 2" by simp
  then have "real_of_int \<bar>int (rne m k * 2 ^ k) - int m\<bar> * 2 powi e \<le> 2 ^ k / 2 * 2 powi e"
    by (simp only: mult_le_cancel_right_pos zero_less_power_int zero_less_numeral)
  ultimately show ?thesis by (simp add: pq q_def [symmetric])
qed

subsection \<open>Unit in the last place, shape of a rounded significand, truncation\<close>

lemma powi_less_D: "(2::real) powi a < 2 powi b \<Longrightarrow> a < b"
proof (rule ccontr)
  assume a: "(2::real) powi a < 2 powi b" and "\<not> a < b"
  then have "b \<le> a" by simp
  then have "(2::real) powi b \<le> 2 powi a" by (rule power_int_increasing) simp
  with a show False by simp
qed

lemma msb_bound:
  assumes "real m * 2 powi e < 2 powi c" and "0 < m"
  shows "int (floorlog 2 m) + e \<le> c"
proof -
  have "2 ^ (floorlog 2 m - 1) \<le> m" using assms(2) floorlog_bounds [of m 2] by simp
  then have "real (2 ^ (floorlog 2 m - 1)) \<le> real m" by (simp only: of_nat_le_iff)
  then have "real (2 ^ (floorlog 2 m - 1)) * 2 powi e \<le> real m * 2 powi e"
    by (simp only: mult_le_cancel_right_pos zero_less_power_int zero_less_numeral)
  also note assms(1)
  finally have "real (2 ^ (floorlog 2 m - 1)) * 2 powi e < 2 powi c" .
  moreover have "real (2 ^ (floorlog 2 m - 1)) * 2 powi e = 2 powi (int (floorlog 2 m - 1) + e)"
    by (simp add: power_int_add)
  ultimately have "(2::real) powi (int (floorlog 2 m - 1) + e) < 2 powi c"
    by (simp only:)
  then have "int (floorlog 2 m - 1) + e < c" by (rule powi_less_D)
  moreover have "0 < floorlog 2 m" using assms(2) by (simp add: floorlog_def)
  ultimately show ?thesis by simp
qed

lemma ulp_exp_le:
  assumes "real m * 2 powi e < 2 powi c" and "e \<le> c" and "emin F < c"
  shows "ulp_exp F m e \<le> c - int (prec F)"
proof (cases "m = 0")
  case True
  then show ?thesis using assms(2,3) by (simp add: ulp_exp_def floorlog_def)
next
  case False
  then have "int (floorlog 2 m) + e \<le> c" using assms(1) by (intro msb_bound) simp_all
  then show ?thesis using assms(3) by (simp add: ulp_exp_def)
qed

lemma round_sig_exact: "ulp_exp F m e \<le> e \<Longrightarrow> round_sig F m e = (m, e)"
  by (simp add: round_sig_def)

lemma round_sig_shape:
  assumes "round_sig F m e = (n, d)"
  shows "n \<le> 2 ^ prec F \<and> e \<le> d"
proof (cases "ulp_exp F m e \<le> e")
  case True
  with assms have nd: "n = m" "d = e" by (simp_all add: round_sig_def Let_def)
  from True have "int (floorlog 2 m) \<le> int (prec F)" by (simp add: ulp_exp_def)
  then have "floorlog 2 m \<le> prec F" by simp
  then have "m < 2 ^ prec F" by (rule floorlog_leD) simp
  then show ?thesis using nd by simp
next
  case False
  define q where "q = ulp_exp F m e"
  define k where "k = nat (q - e)"
  from False assms have nd: "n = rne m k" "d = q"
    by (auto simp add: round_sig_def Let_def q_def k_def)
  have "int (floorlog 2 m) + e - 1 \<le> q + int (prec F) - 1" by (simp add: q_def ulp_exp_def)
  then have "floorlog 2 m \<le> prec F + k" using False by (simp add: k_def q_def)
  then have "m < 2 ^ (prec F + k)" by (rule floorlog_leD) simp
  then have "m \<le> 2 ^ prec F * 2 ^ k" by (simp add: power_add)
  then have "rne m k \<le> 2 ^ prec F" by (rule rne_le)
  then show ?thesis using nd False by (simp add: q_def)
qed

lemma fp_round_Fin:
  assumes "round_sig F m e = (n, d)" and "real n * 2 powi d < 2 powi (emax F + 1)"
  shows "fp_round F s m e = Fin s n d"
proof (cases "n = 0")
  case True
  then show ?thesis using assms(1) by (simp add: fp_round_def)
next
  case False
  then have "int (floorlog 2 n) + d \<le> emax F + 1" using assms(2) by (intro msb_bound) simp_all
  then show ?thesis using assms(1) by (simp add: fp_round_def)
qed

lemma trunc_is_floor:
  "(if 0 \<le> d then n * 2 ^ nat d else n div 2 ^ nat (- d)) = nat \<lfloor>real n * 2 powi d\<rfloor>"
proof (cases "0 \<le> d")
  case True
  then have "real n * 2 powi d = real (n * 2 ^ nat d)" by (simp add: power_int_def)
  then show ?thesis using True by (simp only: floor_of_nat nat_int if_True)
next
  case False
  then have "real n * 2 powi d = real n / real (2 ^ nat (- d))" by (simp add: power_int_def field_simps)
  then have "\<lfloor>real n * 2 powi d\<rfloor> = int (n div 2 ^ nat (- d))"
    by (simp only: floor_divide_of_nat_eq)
  then show ?thesis using False by simp
qed

lemma fp_to_uint16_floor:
  assumes "\<lfloor>real n * 2 powi d\<rfloor> \<le> 65535"
  shows "fp_to_uint16 (Fin False n d) = Some (of_nat (nat \<lfloor>real n * 2 powi d\<rfloor>))"
proof -
  define t where "t = (if 0 \<le> d then n * 2 ^ nat d else n div 2 ^ nat (- d))"
  have t: "t = nat \<lfloor>real n * 2 powi d\<rfloor>" unfolding t_def by (rule trunc_is_floor)
  have "nat \<lfloor>real n * 2 powi d\<rfloor> \<le> nat 65535" using assms by (rule nat_mono)
  then have "t \<le> 65535" by (simp add: t)
  then have "fp_to_uint16 (Fin False n d) = Some (of_nat t)"
    by (simp add: t_def [symmetric] Let_def)
  then show ?thesis by (simp only: t)
qed

subsection \<open>The input range of \<^verbatim>\<open>setVoltage\<close>\<close>

lemma decode32_Fin:
  assumes "decode32 v = Fin s m e"
  shows "s = sign v \<and> m < 2 ^ 24 \<and> - 149 \<le> e \<and> e \<le> 104 \<and> (2 ^ 23 \<le> m \<or> e = - 149)"
proof -
  have f: "unat (fraction v) < 2 ^ 23" using unsigned_less [of "fraction v"] by simp
  have b: "uint (biased_exp v) < 256" "0 \<le> uint (biased_exp v)"
    using unsigned_less [of "biased_exp v", where ?'a = int] by simp_all
  have ne: "uint (biased_exp v) \<noteq> 255"
    using assms by (auto simp add: decode32_def word_uint_eq_iff split: if_splits)
  show ?thesis
  proof (cases "biased_exp v = 0")
    case True
    with assms ne have "s = sign v" "m = unat (fraction v)" "e = - 149"
      by (auto simp add: decode32_def split: if_splits)
    with f show ?thesis by simp
  next
    case False
    with assms ne have "s = sign v" "m = 2 ^ 23 + unat (fraction v)"
        "e = uint (biased_exp v) - 150"
      by (auto simp add: decode32_def split: if_splits)
    moreover have "uint (biased_exp v) \<noteq> 0" using False by (simp add: word_uint_eq_iff)
    then have "1 \<le> uint (biased_exp v)" using uint_ge_0 [of "biased_exp v"] by linarith
    ultimately show ?thesis using f b ne by simp
  qed
qed

lemma in_range_decode:
  assumes "decode32 v = Fin s m e" and "0 \<le> dyadic s m e" and "dyadic s m e \<le> 4095 / 1000"
  shows "e \<le> - 21 \<and> (s \<longrightarrow> m = 0) \<and> real m * 2 powi e \<le> real 8587837 * 2 powi (- 21)"
proof -
  from assms(1) have d: "m < 2 ^ 24" "- 149 \<le> e" "2 ^ 23 \<le> m \<or> e = - 149"
    using decode32_Fin by blast+
  have sm: "m = 0" if "s"
  proof -
    from that assms(2) have "real m * 2 powi e \<le> 0" by (simp add: dyadic_def)
    moreover have "(0::real) < 2 powi e" by simp
    ultimately have "real m \<le> 0" by (simp only: mult_le_0_iff) linarith
    then show ?thesis by simp
  qed
  have le: "real m * 2 powi e \<le> 4095 / 1000"
  proof (cases s)
    case True
    then show ?thesis using sm by simp
  next
    case False
    then show ?thesis using assms(3) by (simp add: dyadic_def)
  qed
  have e: "e \<le> - 21"
  proof (cases "2 ^ 23 \<le> m")
    case True
    then have "real (2 ^ 23) \<le> real m" by (simp only: of_nat_le_iff)
    then have "real (2 ^ 23) * 2 powi e \<le> real m * 2 powi e"
      by (simp only: mult_le_cancel_right_pos zero_less_power_int zero_less_numeral)
    also note le
    also have "(4095 / 1000 :: real) < 8" by simp
    finally have "real (2 ^ 23) * 2 powi e < 8" .
    moreover have "real (2 ^ 23) * 2 powi e = 2 powi (23 + e)" by (simp add: power_int_add)
    moreover have "(8::real) = 2 powi 3" by simp
    ultimately have "(2::real) powi (23 + e) < 2 powi 3" by (simp only:)
    then have "23 + e < 3" by (rule powi_less_D)
    then show ?thesis by simp
  next
    case False
    with d(3) show ?thesis by simp
  qed
  have "m \<le> 8587837 * 2 ^ nat (- 21 - e)"
  proof (cases "e = - 21")
    case True
    with le have "real m \<le> 4095 / 1000 * 2 ^ 21" by (simp add: power_int_minus field_simps)
    then have "real m < real (8587838::nat)" by simp
    then have "m < 8587838" by (simp only: of_nat_less_iff)
    then show ?thesis using True by simp
  next
    case False
    with e have "1 \<le> nat (- 21 - e)" by simp
    then have "(2::nat) ^ 1 \<le> 2 ^ nat (- 21 - e)" by (intro power_increasing) simp_all
    then have "8587837 * (2::nat) ^ 1 \<le> 8587837 * 2 ^ nat (- 21 - e)" by (simp only: mult_le_mono2)
    moreover have "m \<le> 8587837 * 2 ^ 1" using d(1) by simp
    ultimately show ?thesis by (rule_tac order_trans)
  qed
  then have "real m * 2 powi e \<le> real 8587837 * 2 powi (- 21)"
    using e by (simp only: scaled_le_iff)
  with e sm show ?thesis by blast
qed

subsection \<open>The product, the sum and the voltage code\<close>

lemma int_to_float_1000: "int_to_float 1000 = Fin False 1000 0"
  by code_simp

lemma product_stage:
  assumes "decode32 v = Fin s m e" and "0 \<le> dyadic s m e" and "dyadic s m e \<le> 4095 / 1000"
  shows "\<exists>n d. fp_mul binary32 (decode32 v) (int_to_float 1000) = Fin s n d \<and> (s \<longrightarrow> n = 0)
           \<and> n \<le> 2 ^ 24 \<and> - 149 \<le> d \<and> real n * 2 powi d \<le> 4095"
proof -
  from assms have r: "e \<le> - 21" "s \<longrightarrow> m = 0" "real m * 2 powi e \<le> real 8587837 * 2 powi (- 21)"
    using in_range_decode by blast+
  from assms(1) have lo: "- 149 \<le> e" using decode32_Fin by blast
  obtain n d where nd: "round_sig binary32 (m * 1000) e = (n, d)" by (cases "round_sig binary32 (m * 1000) e")
  have "real (m * 1000) * 2 powi e = 1000 * (real m * 2 powi e)" by simp
  also have "\<dots> \<le> 1000 * (real 8587837 * 2 powi (- 21))" using r(3) by (simp only: mult_le_cancel_left_pos zero_less_numeral)
  also have "\<dots> \<le> 4095" by simp
  finally have up: "real (m * 1000) * 2 powi e \<le> 4095" .
  then have "real (m * 1000) * 2 powi e < 2 powi 12" by simp
  then have "ulp_exp binary32 (m * 1000) e \<le> 12 - int (prec binary32)"
    using r(1) by (intro ulp_exp_le) (simp_all add: binary32_def)
  then have u: "ulp_exp binary32 (m * 1000) e \<le> 0" by (simp add: binary32_def)
  have "real (m * 1000) * 2 powi e \<le> real 4095 * 2 powi 0" using up by simp
  then have "real n * 2 powi d \<le> real 4095 * 2 powi 0" using u nd by (rule round_sig_le)
  then have b: "real n * 2 powi d \<le> 4095" by simp
  have z: "n = 0" if "s"
  proof -
    from that r(2) have "real (m * 1000) * 2 powi e \<le> real 0 * 2 powi 0" by simp
    then have "real n * 2 powi d \<le> real 0 * 2 powi 0" using u nd by (rule round_sig_le)
    then have "real n * 2 powi d \<le> 0" by simp
    moreover have "(0::real) < 2 powi d" by simp
    ultimately have "real n \<le> 0" by (simp only: mult_le_0_iff) linarith
    then show ?thesis by simp
  qed
  from nd have sh: "n \<le> 2 ^ prec binary32 \<and> e \<le> d" by (rule round_sig_shape)
  have "real n * 2 powi d < 2 powi (emax binary32 + 1)" using b by (simp add: binary32_def)
  with nd have "fp_round binary32 s (m * 1000) e = Fin s n d" by (rule fp_round_Fin)
  then have "fp_mul binary32 (decode32 v) (int_to_float 1000) = Fin s n d"
    by (simp add: assms(1) int_to_float_1000)
  with z sh lo b show ?thesis by (auto simp add: binary32_def)
qed

lemma sum_stage:
  assumes "s \<longrightarrow> n = 0" and "n \<le> 2 ^ 24" and "- 149 \<le> d" and "real n * 2 powi d \<le> 4095"
  shows "\<exists>n' d'. fp_add binary64 (Fin s n d) half = Fin False n' d'
           \<and> \<lfloor>real n' * 2 powi d'\<rfloor> = \<lfloor>real n * 2 powi d + 1 / 2\<rfloor>"
proof -
  define g where "g = min d (- 1)"
  define C where "C = n * 2 ^ nat (d - g) + 2 ^ nat (- 1 - g)"
  have g: "g \<le> d" "g \<le> - 1" "- 149 \<le> g" using assms(3) by (simp_all add: g_def)
  have a: "(if s then - 1 else 1) * int n * 2 ^ nat (d - g) = int (n * 2 ^ nat (d - g))"
    using assms(1) by simp
  have Cpos: "0 < C" by (simp add: C_def)
  have add: "fp_add binary64 (Fin s n d) half = fp_round binary64 False C g"
  proof -
    have "(if s then - 1 else 1) * int n * 2 ^ nat (d - g) + (if False then - 1 else 1) * int 1 * 2 ^ nat (- 1 - g) = int C"
      by (simp only: a) (simp add: C_def)
    then show ?thesis using Cpos by (simp add: half_def g_def [symmetric] Let_def)
  qed
  have val: "real C * 2 powi g = real n * 2 powi d + 1 / 2"
  proof -
    have "real C * 2 powi g = real n * (2 ^ nat (d - g) * 2 powi g) + 2 ^ nat (- 1 - g) * 2 powi g"
      by (simp add: C_def algebra_simps)
    also have "\<dots> = real n * 2 powi d + 2 powi (- 1)"
      using g by (simp only: powi_split [symmetric])
    finally show ?thesis by simp
  qed
  obtain n' d' where nd: "round_sig binary64 C g = (n', d')" by (cases "round_sig binary64 C g")
  have up: "real C * 2 powi g < 2 powi 13" using assms(4) val by simp
  have fl: "\<lfloor>real n' * 2 powi d'\<rfloor> = \<lfloor>real C * 2 powi g\<rfloor> \<and> real n' * 2 powi d' < 2 powi 13"
  proof (cases "ulp_exp binary64 C g \<le> g")
    case True
    then have "round_sig binary64 C g = (C, g)" by (rule round_sig_exact)
    with nd up show ?thesis by simp
  next
    case False
    then have "53 < int (floorlog 2 C)" using g(3) by (simp add: ulp_exp_def binary64_def)
    then have "\<not> floorlog 2 C \<le> 53" by simp
    then have "\<not> C < 2 ^ 53" by (simp add: floorlog_le_iff)
    then have "real (2 ^ 53) \<le> real C" by (simp only: of_nat_le_iff not_less)
    then have "real (2 ^ 53) * 2 powi g \<le> real C * 2 powi g"
      by (simp only: mult_le_cancel_right_pos zero_less_power_int zero_less_numeral)
    also note up
    finally have "real (2 ^ 53) * 2 powi g < 2 powi 13" .
    moreover have "real (2 ^ 53) * 2 powi g = 2 powi (53 + g)" by (simp add: power_int_add)
    ultimately have "(2::real) powi (53 + g) < 2 powi 13" by (simp only:)
    then have "53 + g < 13" by (rule powi_less_D)
    then have g40: "g < - 40" by simp
    then have dg: "d = g" by (simp add: g_def min_def split: if_splits)
    have "n \<le> 2 ^ 24 * 2 ^ nat (- 41 - d)"
    proof -
      have "(1::nat) \<le> 2 ^ nat (- 41 - d)" by simp
      then have "2 ^ 24 * (1::nat) \<le> 2 ^ 24 * 2 ^ nat (- 41 - d)" by (rule mult_le_mono2)
      then have "(2::nat) ^ 24 \<le> 2 ^ 24 * 2 ^ nat (- 41 - d)" by (simp only: mult_1_right)
      with assms(2) show ?thesis by (rule order_trans)
    qed
    then have "real n * 2 powi d \<le> real (2 ^ 24) * 2 powi (- 41)"
      using g40 dg by (simp only: scaled_le_iff)
    then have small: "real n * 2 powi d \<le> 1 / 4" by simp
    have lt1: "real C * 2 powi g < 2 powi 0" using small val by simp
    have "ulp_exp binary64 C g \<le> 0 - int (prec binary64)"
      using lt1 g(2) by (intro ulp_exp_le) (simp_all add: binary64_def)
    then have u: "ulp_exp binary64 C g \<le> - 2" "ulp_exp binary64 C g \<le> - 1"
      by (simp_all add: binary64_def)
    have "real C * 2 powi g \<le> real 3 * 2 powi (- 2)" using small val by simp
    then have "real n' * 2 powi d' \<le> real 3 * 2 powi (- 2)" using u(1) nd by (rule round_sig_le)
    then have hi: "real n' * 2 powi d' \<le> 3 / 4" by simp
    have "real 1 * 2 powi (- 1) \<le> real C * 2 powi g" using val by simp
    then have "real 1 * 2 powi (- 1) \<le> real n' * 2 powi d'" using u(2) nd by (rule round_sig_ge)
    then have lo: "1 / 2 \<le> real n' * 2 powi d'" by simp
    have "\<lfloor>real n' * 2 powi d'\<rfloor> = 0" using lo hi by (simp add: floor_eq_iff)
    moreover have "\<lfloor>real C * 2 powi g\<rfloor> = 0" using small val by (simp add: floor_eq_iff)
    ultimately show ?thesis using hi by simp
  qed
  then have "real n' * 2 powi d' < 2 powi (emax binary64 + 1)"
  proof -
    have "(2::real) powi 13 \<le> 2 powi (emax binary64 + 1)"
      by (rule power_int_increasing) (simp_all add: binary64_def)
    with fl show ?thesis by linarith
  qed
  with nd have "fp_round binary64 False C g = Fin False n' d'" by (rule fp_round_Fin)
  with add fl val show ?thesis by simp
qed

lemma product_near:
  assumes "decode32 v = Fin s m e" and "0 \<le> dyadic s m e" and "dyadic s m e \<le> 4095 / 1000"
    and "fp_mul binary32 (decode32 v) (int_to_float 1000) = Fin s n d"
  shows "\<bar>real n * 2 powi d - 1000 * (real m * 2 powi e)\<bar> \<le> 1 / 8192"
proof -
  from assms have r: "e \<le> - 21" "real m * 2 powi e \<le> real 8587837 * 2 powi (- 21)"
    using in_range_decode by blast+
  obtain n' d' where nd: "round_sig binary32 (m * 1000) e = (n', d')"
    by (cases "round_sig binary32 (m * 1000) e")
  have "fp_mul binary32 (decode32 v) (int_to_float 1000) = fp_round binary32 s (m * 1000) e"
    by (simp add: assms(1) int_to_float_1000)
  with assms(4) nd have "n' = n" "d' = d" by (auto simp add: fp_round_def split: if_splits)
  with nd have nd': "round_sig binary32 (m * 1000) e = (n, d)" by simp
  have "real (m * 1000) * 2 powi e = 1000 * (real m * 2 powi e)" by simp
  also have "\<dots> \<le> 1000 * (real 8587837 * 2 powi (- 21))"
    using r(2) by (simp only: mult_le_cancel_left_pos zero_less_numeral)
  also have "\<dots> < 2 powi 12" by simp
  finally have "real (m * 1000) * 2 powi e < 2 powi 12" .
  then have "ulp_exp binary32 (m * 1000) e \<le> 12 - int (prec binary32)"
    using r(1) by (intro ulp_exp_le) (simp_all add: binary32_def)
  then have "ulp_exp binary32 (m * 1000) e \<le> - 12" by (simp add: binary32_def)
  then have "(2::real) powi ulp_exp binary32 (m * 1000) e \<le> 2 powi (- 12)"
    by (rule power_int_increasing) simp
  moreover have "\<bar>real n * 2 powi d - real (m * 1000) * 2 powi e\<bar>
      \<le> 2 powi (ulp_exp binary32 (m * 1000) e) / 2"
    using nd' by (rule round_sig_near)
  ultimately have "\<bar>real n * 2 powi d - real (m * 1000) * 2 powi e\<bar> \<le> 2 powi (- 12) / 2"
    by linarith
  then show ?thesis by (simp add: algebra_simps)
qed

lemma dyadic_nonneg: "s \<longrightarrow> n = 0 \<Longrightarrow> dyadic s n d = real n * 2 powi d"
  by (auto simp add: dyadic_def)

lemma voltageCode_in_range:
  assumes "fp_real (decode32 v) = Some x" and "0 \<le> x" and "x \<le> 4095 / 1000"
  shows "\<exists>p. fp_real (fp_mul binary32 (decode32 v) (int_to_float 1000)) = Some p
           \<and> \<bar>p - 1000 * x\<bar> \<le> 1 / 8192
           \<and> 0 \<le> round p \<and> round p \<le> 4095
           \<and> voltageCode_expr v = Some (word_of_int (round p))"
proof -
  from assms(1) obtain s m e where dec: "decode32 v = Fin s m e" and x: "x = dyadic s m e"
    by (cases "decode32 v") auto
  from assms(2,3) have rng: "0 \<le> dyadic s m e" "dyadic s m e \<le> 4095 / 1000" by (simp_all add: x)
  from dec rng have sm: "s \<longrightarrow> m = 0" using in_range_decode by blast
  from product_stage [OF dec rng] obtain n d where
    mul: "fp_mul binary32 (decode32 v) (int_to_float 1000) = Fin s n d"
    and p: "s \<longrightarrow> n = 0" "n \<le> 2 ^ 24" "- 149 \<le> d" "real n * 2 powi d \<le> 4095"
    by blast
  define p where "p = real n * 2 powi d"
  have pv: "dyadic s n d = p" using p(1) by (simp add: dyadic_nonneg p_def)
  have xv: "x = real m * 2 powi e" using sm by (simp add: x dyadic_nonneg)
  have near: "\<bar>p - 1000 * x\<bar> \<le> 1 / 8192"
    unfolding p_def xv using dec rng mul by (rule product_near)
  have p0: "0 \<le> p" by (simp add: p_def)
  from sum_stage [OF p] obtain n' d' where
    add: "fp_add binary64 (Fin s n d) half = Fin False n' d'"
    and fl: "\<lfloor>real n' * 2 powi d'\<rfloor> = \<lfloor>p + 1 / 2\<rfloor>"
    by (auto simp add: p_def)
  have rp: "round p = \<lfloor>real n' * 2 powi d'\<rfloor>" by (simp add: round_def fl)
  have r0: "0 \<le> round p" using p0 by (simp add: round_def)
  have "p + 1 / 2 < 4096" using p(4) by (simp add: p_def)
  then have "\<lfloor>p + 1 / 2\<rfloor> < 4096" by (simp add: floor_less_iff)
  then have r1: "round p \<le> 4095" by (simp add: round_def)
  then have "\<lfloor>real n' * 2 powi d'\<rfloor> \<le> 65535" by (simp add: rp)
  then have "fp_to_uint16 (Fin False n' d') = Some (of_nat (nat \<lfloor>real n' * 2 powi d'\<rfloor>))"
    by (rule fp_to_uint16_floor)
  then have "voltageCode_expr v = Some (of_nat (nat (round p)))"
    by (simp add: voltageCode_expr_def mul add rp)
  then have "voltageCode_expr v = Some (word_of_int (round p))"
    using r0 by (simp only: of_nat_nat)
  with mul pv near r0 r1 show ?thesis by simp
qed

lemma round_stable:
  fixes p y d :: real
  assumes "\<bar>p - y\<bar> \<le> d" and "\<And>k::int. d < \<bar>y - (of_int k + 1 / 2)\<bar>"
  shows "round p = round y"
proof -
  define K where "K = round y"
  have K: "of_int K \<le> y + 1 / 2" "y + 1 / 2 < of_int K + 1"
    by (simp_all add: K_def round_def)
  have lo: "d < y - (of_int K - 1 / 2)"
  proof -
    have "d < \<bar>y - (of_int (K - 1) + 1 / 2)\<bar>" by (rule assms(2))
    moreover have "0 \<le> y - (of_int (K - 1) + 1 / 2)" using K(1) by simp
    ultimately show ?thesis by simp
  qed
  have hi: "d < (of_int K + 1 / 2) - y"
  proof -
    have "d < \<bar>y - (of_int K + 1 / 2)\<bar>" by (rule assms(2))
    moreover have "y - (of_int K + 1 / 2) \<le> 0" using K(2) by simp
    ultimately show ?thesis by simp
  qed
  from assms(1) have "y - d \<le> p" "p \<le> y + d" by (simp_all add: abs_le_iff)
  with lo hi have "of_int K \<le> p + 1 / 2" "p + 1 / 2 < of_int K + 1" by simp_all
  then have "\<lfloor>p + 1 / 2\<rfloor> = K" by (simp add: floor_unique)
  then show ?thesis by (simp add: round_def K_def)
qed

lemma away_from_halves: "(1 / 8192 :: real) < \<bar>2500 - (of_int k + 1 / 2)\<bar>"
proof (cases "k \<le> 2499")
  case True
  then have "real_of_int k \<le> real_of_int 2499" by (simp only: of_int_le_iff)
  then show ?thesis by simp
next
  case False
  then have "2500 \<le> k" by simp
  then have "real_of_int 2500 \<le> real_of_int k" by (simp only: of_int_le_iff)
  then show ?thesis by simp
qed

subsection \<open>The recorded calls and the range check\<close>

lemma calls_invoke: "calls (invoke c m w) = calls w @ [c]"
  by (simp add: invoke_def split: prod.splits)

lemma calls_usleep: "calls (usleep n w) = calls w @ [Usleep n]"
  by (simp add: usleep_def)

lemmas bridge_calls = configureSPIMode_def disableSPIDelays_def selectCS_def spiWrite_def
  disableCS_def calls_invoke calls_usleep

lemma decode32_VOLTAGE_MIN: "decode32 VOLTAGE_MIN = Fin False 0 (- 149)"
  by (simp add: decode32_def VOLTAGE_MIN_def)

lemma decode32_VOLTAGE_MAX: "decode32 VOLTAGE_MAX = Fin False 8587837 (- 21)"
  by (simp add: decode32_def VOLTAGE_MAX_def)

lemma accepted_in_range:
  assumes "fp_real (decode32 v) = Some x" and "0 \<le> x" and "x \<le> 4095 / 1000"
  shows "\<not> (fp_less (decode32 v) (decode32 VOLTAGE_MIN) \<or> fp_less (decode32 VOLTAGE_MAX) (decode32 v))"
proof -
  from assms(1) obtain s m e where dec: "decode32 v = Fin s m e" and x: "x = dyadic s m e"
    by (cases "decode32 v") auto
  from assms(2,3) have rng: "0 \<le> dyadic s m e" "dyadic s m e \<le> 4095 / 1000" by (simp_all add: x)
  from dec rng have r: "s \<longrightarrow> m = 0" "real m * 2 powi e \<le> real 8587837 * 2 powi (- 21)"
    using in_range_decode by blast+
  have "dyadic s m e = real m * 2 powi e" using r(1) by (rule dyadic_nonneg)
  moreover have "dyadic False 8587837 (- 21) = real 8587837 * 2 powi (- 21)"
    by (simp add: dyadic_def)
  ultimately have "dyadic s m e \<le> dyadic False 8587837 (- 21)" using r(2) by (simp only:)
  moreover have "dyadic False 0 (- 149) = 0" by (simp add: dyadic_def)
  ultimately show ?thesis
    using rng(1) by (simp add: dec decode32_VOLTAGE_MIN decode32_VOLTAGE_MAX)
qed

lemma rejected_out_of_range:
  assumes "decode32 v = Infty s \<or> (\<exists>x. fp_real (decode32 v) = Some x \<and> (x < 0 \<or> 4095 / 1000 < x))"
  shows "fp_less (decode32 v) (decode32 VOLTAGE_MIN) \<or> fp_less (decode32 VOLTAGE_MAX) (decode32 v)"
proof (cases "decode32 v")
  case NaN
  with assms show ?thesis by simp
next
  case (Infty t)
  then show ?thesis by (cases t) (simp_all add: decode32_VOLTAGE_MIN decode32_VOLTAGE_MAX)
next
  case (Fin t m e)
  with assms have "dyadic t m e < 0 \<or> 4095 / 1000 < dyadic t m e" by auto
  moreover have "dyadic False 0 (- 149) = 0" by (simp add: dyadic_def)
  moreover have "dyadic False 8587837 (- 21) < 4095 / 1000" by (simp add: dyadic_def)
  ultimately show ?thesis
    by (auto simp add: Fin decode32_VOLTAGE_MIN decode32_VOLTAGE_MAX)
qed

lemma upper_byte_eq: "upper_byte c = ucast (drop_bit 4 c)"
  unfolding upper_byte_def by (rule bit_word_eqI) (auto simp add: bit_simps)

lemma lower_byte_eq: "lower_byte c = ucast (push_bit 4 c)"
  unfolding lower_byte_def by (rule bit_word_eqI) (auto simp add: bit_simps)

lemma setVoltage_accepted:
  assumes "\<not> (fp_less (decode32 v) (decode32 VOLTAGE_MIN) \<or> fp_less (decode32 VOLTAGE_MAX) (decode32 v))"
  shows "setVoltage B ind v w =
     disableCS B 0 (usleep 100 (spiWrite B
       [0x30, upper_byte (case voltageCode_expr v of Some c \<Rightarrow> c | None \<Rightarrow> ind),
              lower_byte (case voltageCode_expr v of Some c \<Rightarrow> c | None \<Rightarrow> ind)] EPOUT (selectCS B 0 w)))"
  using assms by (simp add: setVoltage_def Let_def)


subsection \<open>Evaluation on concrete inputs\<close>

lemmas fp_eval = voltageCode_expr_def decode32_def int_to_float_def fp_round_def round_sig_def
  ulp_exp_def binary32_def binary64_def half_def Let_def rne_def compute_floorlog
  float32_of_bits_def dyadic_def VOLTAGE_MIN_def VOLTAGE_MAX_def

lemmas stub_eval = stub_def report_def fresh_def setVoltage_def selectCS_def spiWrite_def
  disableCS_def usleep_def invoke_def upper_byte_def lower_byte_def EPOUT_def

lemma VOLTAGE_MAX_bits: "float32_of_bits 0x40830A3D = VOLTAGE_MAX"
  by (simp add: float32_of_bits_def VOLTAGE_MAX_def)

lemma VOLTAGE_MAX_nearest:
  "fp_real (decode32 VOLTAGE_MAX) = Some (8587837 / 2097152)
   \<and> \<bar>8587837 / 2097152 - 4095 / 1000\<bar> < (1 / 2 ^ 22 :: real)"
  by (simp add: fp_eval)

lemma open_contract_stub: "open_contract stub"
  by (simp add: open_contract_def stub_def)

lemma close_contract_stub: "close_contract stub"
  by (simp add: close_contract_def stub_def)

subsection \<open>The accumulator\<close>










subsection \<open>Letters and digits\<close>

lemma letter_char:
  assumes "1 < m" 
  shows "char_of (uint m + of_char (CHR ''A'') - 2) = char_of (of_char (CHR ''A'') + (unat m - 2))"
proof -
  have "1 < unat m" using assms by (simp add: word_less_nat_alt)
  then have "uint m + of_char (CHR ''A'') - 2 = int (of_char (CHR ''A'') + (unat m - 2))"
    by (simp add: of_nat_diff)
  then show ?thesis by (simp only: char_of_nat)
qed

lemma ostream_int_uint: "ostream_int (uint x) = decimal (unat x)"
  by (simp add: ostream_int_def)

lemma revision_letters:
  "map (\<lambda>n. char_of (of_char (CHR ''A'') + (n - 2 :: nat))) [2..<28] = ''ABCDEFGHIJKLMNOPQRSTUVWXYZ''"
  by code_simp

lemma decimal_value_snoc: "decimal_value (cs @ [c]) = 10 * decimal_value cs + (of_char c - 48)"
  by (simp add: decimal_value_def)

lemma decimal_value_decimal: "decimal_value (decimal n) = n"
proof (induction n rule: decimal.induct)
  case (1 n)
  show ?case
  proof (cases "n < 10")
    case True
    then show ?thesis by (subst decimal.simps) (simp add: decimal_value_def)
  next
    case False
    have "decimal n = decimal (n div 10) @ [char_of (48 + n mod 10)]"
      using False by (subst decimal.simps) simp
    then have "decimal_value (decimal n) =
        10 * decimal_value (decimal (n div 10)) + (of_char (char_of (48 + n mod 10) :: char) - 48)"
      by (simp only: decimal_value_snoc)
    also have "\<dots> = 10 * (n div 10) + n mod 10" using 1 [OF False] by simp
    finally show ?thesis by simp
  qed
qed

section \<open>Properties\<close>

subsection \<open>Setting the voltage\<close>

text \<open>
  C1, as the code has it. For every \<^verbatim>\<open>float\<close> voltage whose value \<open>x\<close> lies in the
  closed interval from 0 to 4.095, \<^verbatim>\<open>setVoltage\<close> makes exactly four calls: it
  selects chip-select channel 0, writes once to the SPI endpoint \<^verbatim>\<open>0x01\<close>, waits the
  100 microseconds, and deselects channel 0. The write carries three bytes: the opcode
  \<^verbatim>\<open>0x30\<close>, then \<^verbatim>\<open>code >> 4\<close> and \<^verbatim>\<open>code << 4\<close> cut to eight bits, where
  \<open>code = round p\<close> is at most 4095 and \<open>p\<close> is the single-precision product
  \<^verbatim>\<open>voltage * 1000\<close>, which lies within 1/8192 of \<open>1000 x\<close>. So
  \<open>code = round (1000 x)\<close> whenever \<open>1000 x\<close> is farther than 1/8192 from every
  half-integer. The bridge and the state before are arbitrary.
\<close>

theorem setVoltage_in_range:
  assumes "fp_real (decode32 voltage) = Some x" and "0 \<le> x" and "x \<le> 4095 / 1000"
  shows "\<exists>p (code :: 16 word).
           fp_real (fp_mul binary32 (decode32 voltage) (int_to_float 1000)) = Some p
           \<and> \<bar>p - 1000 * x\<bar> \<le> 1 / 8192
           \<and> uint code = round p \<and> code \<le> 4095
           \<and> ((\<forall>k::int. 1 / 8192 < \<bar>1000 * x - (of_int k + 1 / 2)\<bar>)
                \<longrightarrow> uint code = round (1000 * x))
           \<and> calls (setVoltage B indefinite voltage w) = calls w @
                [SelectCS 0,
                 SpiWrite [0x30, ucast (drop_bit 4 code), ucast (push_bit 4 code)] 0x01,
                 Usleep 100,
                 DisableCS 0]"
proof -
  from voltageCode_in_range [OF assms] obtain p where
    p: "fp_real (fp_mul binary32 (decode32 voltage) (int_to_float 1000)) = Some p"
       "\<bar>p - 1000 * x\<bar> \<le> 1 / 8192" "0 \<le> round p" "round p \<le> 4095"
       "voltageCode_expr voltage = Some (word_of_int (round p))"
    by blast
  define code :: "16 word" where "code = word_of_int (round p)"
  have u: "uint code = round p" using p(3,4) by (simp add: code_def uint_word_of_int)
  then have le: "code \<le> 4095" using p(4) by (simp add: word_le_def)
  have st: "(\<forall>k::int. 1 / 8192 < \<bar>1000 * x - (of_int k + 1 / 2)\<bar>)
      \<longrightarrow> uint code = round (1000 * x)"
  proof
    assume "\<forall>k::int. 1 / 8192 < \<bar>1000 * x - (of_int k + 1 / 2)\<bar>"
    then have "\<And>k::int. 1 / 8192 < \<bar>1000 * x - (of_int k + 1 / 2)\<bar>" by blast
    with p(2) have "round p = round (1000 * x)" by (rule round_stable)
    with u show "uint code = round (1000 * x)" by simp
  qed
  have "setVoltage B indefinite voltage w =
      disableCS B 0 (usleep 100
        (spiWrite B [0x30, upper_byte code, lower_byte code] EPOUT (selectCS B 0 w)))"
    using accepted_in_range [OF assms] by (simp add: setVoltage_accepted p(5) code_def)
  then have "calls (setVoltage B indefinite voltage w) = calls w @
      [SelectCS 0, SpiWrite [0x30, ucast (drop_bit 4 code), ucast (push_bit 4 code)] 0x01,
       Usleep 100, DisableCS 0]"
    by (simp add: bridge_calls EPOUT_def upper_byte_eq lower_byte_eq)
  with p(1,2) u le st have c:
    "fp_real (fp_mul binary32 (decode32 voltage) (int_to_float 1000)) = Some p
       \<and> \<bar>p - 1000 * x\<bar> \<le> 1 / 8192
       \<and> uint code = round p \<and> code \<le> 4095
       \<and> ((\<forall>k::int. 1 / 8192 < \<bar>1000 * x - (of_int k + 1 / 2)\<bar>)
            \<longrightarrow> uint code = round (1000 * x))
       \<and> calls (setVoltage B indefinite voltage w) = calls w @
            [SelectCS 0,
             SpiWrite [0x30, ucast (drop_bit 4 code), ucast (push_bit 4 code)] 0x01,
             Usleep 100,
             DisableCS 0]"
    by simp
  show ?thesis by (intro exI) (rule c)
qed

text \<open>
  An instance: 2.5 volts, bit pattern \<^verbatim>\<open>0x40200000\<close>, on the bridge stub. The code
  is 2500, \<^verbatim>\<open>0x9C4\<close>, sent as \<^verbatim>\<open>0x9C 0x40\<close>.
\<close>

theorem setVoltage_in_range_witness:
  "fp_real (decode32 (float32_of_bits 0x40200000)) = Some (5 / 2)
   \<and> (0::real) \<le> 5 / 2 \<and> (5 / 2 :: real) \<le> 4095 / 1000
   \<and> calls (setVoltage stub 0 (float32_of_bits 0x40200000) fresh) =
        [SelectCS 0, SpiWrite [0x30, 0x9C, 0x40] 0x01, Usleep 100, DisableCS 0]"
proof -
  have h: "fp_real (decode32 (float32_of_bits 0x40200000)) = Some (5 / 2)"
    by (simp add: fp_eval)
  have r: "(0::real) \<le> 5 / 2" "(5 / 2 :: real) \<le> 4095 / 1000" by simp_all
  from setVoltage_in_range [OF h r, of stub 0 fresh] obtain code :: "16 word" where
    c: "(\<forall>k::int. 1 / 8192 < \<bar>1000 * (5 / 2) - (real_of_int k + 1 / 2)\<bar>)
          \<longrightarrow> uint code = round (1000 * (5 / 2) :: real)"
       "calls (setVoltage stub 0 (float32_of_bits 0x40200000) fresh) = calls fresh @
          [SelectCS 0, SpiWrite [0x30, ucast (drop_bit 4 code), ucast (push_bit 4 code)] 0x01,
           Usleep 100, DisableCS 0]"
    by blast
  have "\<forall>k::int. 1 / 8192 < \<bar>1000 * (5 / 2) - (real_of_int k + 1 / 2)\<bar>"
    using away_from_halves by simp
  with c(1) have "uint code = round (1000 * (5 / 2) :: real)" by blast
  then have "uint code = 2500" by (simp add: round_def)
  then have "code = 2500" by (simp add: word_uint_eq_iff)
  with c(2) have "calls (setVoltage stub 0 (float32_of_bits 0x40200000) fresh) =
        [SelectCS 0, SpiWrite [0x30, 0x9C, 0x40] 0x01, Usleep 100, DisableCS 0]"
    by (simp add: fresh_def)
  with h r show ?thesis by (simp only: simp_thms)
qed

text \<open>
  With \<open>round (1000 x)\<close> taken over the reals the statement fails. The
  \<^verbatim>\<open>float\<close> nearest to 0.0025 has the bit pattern \<^verbatim>\<open>0x3B23D70A\<close> and the value
  10737418 / 4294967296, just below 0.0025, so \<open>round (1000 x) = 2\<close>, with data bytes
  \<^verbatim>\<open>0x00 0x20\<close>. The single-precision product is exactly 2.5, the code is 3 and
  the bytes written are \<^verbatim>\<open>0x00 0x30\<close>.
\<close>

theorem setVoltage_exact_rounding_fails:
  "fp_real (decode32 (float32_of_bits 0x3B23D70A)) = Some (10737418 / 2 ^ 32)
   \<and> (0::real) \<le> 10737418 / 2 ^ 32 \<and> (10737418 / 2 ^ 32 :: real) \<le> 4095 / 1000
   \<and> round (1000 * (10737418 / 2 ^ 32) :: real) = 2
   \<and> calls (setVoltage stub 0 (float32_of_bits 0x3B23D70A) fresh) \<noteq> calls fresh @
        [SelectCS 0,
         SpiWrite [0x30, ucast (drop_bit 4 (2 :: 16 word)), ucast (push_bit 4 (2 :: 16 word))] 0x01,
         Usleep 100,
         DisableCS 0]
   \<and> calls (setVoltage stub 0 (float32_of_bits 0x3B23D70A) fresh) =
        [SelectCS 0, SpiWrite [0x30, 0x00, 0x30] 0x01, Usleep 100, DisableCS 0]"
proof -
  have 1: "fp_real (decode32 (float32_of_bits 0x3B23D70A)) = Some (10737418 / 2 ^ 32)"
    by (simp add: fp_eval)
  have 2: "round (1000 * (10737418 / 2 ^ 32) :: real) = 2" by (simp add: round_def)
  have 3: "voltageCode_expr (float32_of_bits 0x3B23D70A) = Some 3" by (simp add: fp_eval)
  have 4: "\<not> (fp_less (decode32 (float32_of_bits 0x3B23D70A)) (decode32 VOLTAGE_MIN)
            \<or> fp_less (decode32 VOLTAGE_MAX) (decode32 (float32_of_bits 0x3B23D70A)))"
    by (simp add: fp_eval)
  have 5: "calls (setVoltage stub 0 (float32_of_bits 0x3B23D70A) fresh) =
        [SelectCS 0, SpiWrite [0x30, 0x00, 0x30] 0x01, Usleep 100, DisableCS 0]"
    using 4
    by (simp add: setVoltage_accepted 3 bridge_calls fresh_def upper_byte_def lower_byte_def
        EPOUT_def)
  have 6: "calls (setVoltage stub 0 (float32_of_bits 0x3B23D70A) fresh) \<noteq> calls fresh @
        [SelectCS 0,
         SpiWrite [0x30, ucast (drop_bit 4 (2 :: 16 word)), ucast (push_bit 4 (2 :: 16 word))] 0x01,
         Usleep 100,
         DisableCS 0]"
    unfolding 5 by (simp add: fresh_def)
  have 7: "(0::real) \<le> 10737418 / 2 ^ 32" "(10737418 / 2 ^ 32 :: real) \<le> 4095 / 1000"
    by simp_all
  from 1 7 2 6 5 show ?thesis by (intro conjI)
qed

text \<open>
  The range check on numbers. For every voltage that is an infinity or a
  \<^verbatim>\<open>float\<close> whose value \<open>x\<close> is below 0 or above 4.095, \<^verbatim>\<open>setVoltage\<close> makes
  no call at all and leaves the bridge as it was; it increments \<^verbatim>\<open>errcnt\<close> by
  exactly 1 and appends the one message
  "In setVoltage(): Voltage must be between 0 and 4.095." with its newline to
  \<^verbatim>\<open>errstr\<close>. The count before is below \<^verbatim>\<open>INT_MAX\<close>.
\<close>

theorem setVoltage_out_of_range:
  assumes "decode32 voltage = Infty s
           \<or> (fp_real (decode32 voltage) = Some x \<and> (x < 0 \<or> 4095 / 1000 < x))"
    and "errcnt w < INT_MAX"
  shows "setVoltage B indefinite voltage w =
           w\<lparr>errcnt := errcnt w + 1,
             errstr := errstr w @
               ''In setVoltage(): Voltage must be between 0 and 4.095.'' @ [CHR 0x0A]\<rparr>
         \<and> calls (setVoltage B indefinite voltage w) = calls w
         \<and> cp2130 (setVoltage B indefinite voltage w) = cp2130 w"
proof -
  from assms(1) have "decode32 voltage = Infty s
      \<or> (\<exists>x. fp_real (decode32 voltage) = Some x \<and> (x < 0 \<or> 4095 / 1000 < x))"
    by blast
  then have "fp_less (decode32 voltage) (decode32 VOLTAGE_MIN)
      \<or> fp_less (decode32 VOLTAGE_MAX) (decode32 voltage)"
    by (rule rejected_out_of_range)
  then show ?thesis by (simp add: setVoltage_def)
qed

text \<open>An instance: 4.2 volts, bit pattern \<^verbatim>\<open>0x40866666\<close>.\<close>

theorem setVoltage_out_of_range_witness:
  "fp_real (decode32 (float32_of_bits 0x40866666)) = Some (8808038 / 2 ^ 21)
   \<and> (4095 / 1000 :: real) < 8808038 / 2 ^ 21
   \<and> errcnt fresh < INT_MAX
   \<and> setVoltage stub 0 (float32_of_bits 0x40866666) fresh =
        fresh\<lparr>errcnt := 1,
          errstr := ''In setVoltage(): Voltage must be between 0 and 4.095.'' @ [CHR 0x0A]\<rparr>
   \<and> calls (setVoltage stub 0 (float32_of_bits 0x40866666) fresh) = []"
proof -
  have v: "fp_real (decode32 (float32_of_bits 0x40866666)) = Some (8808038 / 2 ^ 21)"
    by (simp add: fp_eval)
  have g: "(4095 / 1000 :: real) < 8808038 / 2 ^ 21" by simp
  have h: "decode32 (float32_of_bits 0x40866666) = Infty False
      \<or> (fp_real (decode32 (float32_of_bits 0x40866666)) = Some (8808038 / 2 ^ 21)
          \<and> ((8808038 / 2 ^ 21 :: real) < 0 \<or> 4095 / 1000 < (8808038 / 2 ^ 21 :: real)))"
    using v g by (simp only: simp_thms)
  have e: "errcnt fresh < INT_MAX" by (simp add: fresh_def INT_MAX_def)
  show ?thesis
    using v g e setVoltage_out_of_range [OF h e, of stub 0] by (simp add: fresh_def)
qed

text \<open>
  C2 requires every voltage outside the closed interval from 0 to 4.095 to be rejected
  with no hardware access, one more error counted and the message appended. At a voltage
  that is not a number the code does otherwise. The quiet not-a-number
  \<^verbatim>\<open>0x7FC00000\<close> denotes no real number, yet on the bridge stub with its handle
  held \<^verbatim>\<open>setVoltage\<close> selects channel 0, writes three bytes, waits and deselects,
  and the accumulator stays at zero errors and an empty text.
\<close>

theorem setVoltage_not_a_number_accepted:
  "fp_real (decode32 (float32_of_bits 0x7FC00000)) = None
   \<and> calls (setVoltage stub 0 (float32_of_bits 0x7FC00000) (fresh\<lparr>cp2130 := True\<rparr>)) =
        [SelectCS 0, SpiWrite [0x30, 0x00, 0x00] 0x01, Usleep 100, DisableCS 0]
   \<and> accumulator (setVoltage stub 0 (float32_of_bits 0x7FC00000) (fresh\<lparr>cp2130 := True\<rparr>))
        = (0, [])"
proof -
  have n: "decode32 (float32_of_bits 0x7FC00000) = NaN" by (simp add: fp_eval)
  have a: "\<not> (fp_less (decode32 (float32_of_bits 0x7FC00000)) (decode32 VOLTAGE_MIN)
            \<or> fp_less (decode32 VOLTAGE_MAX) (decode32 (float32_of_bits 0x7FC00000)))"
    by (simp add: n decode32_VOLTAGE_MAX)
  have c: "voltageCode_expr (float32_of_bits 0x7FC00000) = None"
    by (simp add: voltageCode_expr_def n)
  show ?thesis
    by (simp add: n setVoltage_accepted [OF a] c stub_def report_def fresh_def selectCS_def
        spiWrite_def disableCS_def usleep_def invoke_def upper_byte_def lower_byte_def EPOUT_def
        accumulator_def)
qed

text \<open>
  C9. For a voltage that is not a number both comparisons of the range check are false,
  so the error branch is not taken although the argument is no member of the interval:
  \<^verbatim>\<open>setVoltage\<close> selects channel 0, writes the opcode and the two bytes of an
  unspecified voltage code (the conversion to \<^verbatim>\<open>uint16_t\<close> is undefined), waits and
  deselects. Its own code adds nothing to the accumulator: what the accumulator holds
  afterwards is what the three bridge calls leave in it.
\<close>

theorem setVoltage_nan:
  assumes "decode32 voltage = NaN"
  shows "fp_real (decode32 voltage) = None
         \<and> fp_less (decode32 voltage) (decode32 VOLTAGE_MIN) = False
         \<and> fp_less (decode32 VOLTAGE_MAX) (decode32 voltage) = False
         \<and> voltageCode_expr voltage = None
         \<and> setVoltage B indefinite voltage w =
             disableCS B 0 (usleep 100 (spiWrite B
               [0x30, upper_byte indefinite, lower_byte indefinite] EPOUT (selectCS B 0 w)))
         \<and> calls (setVoltage B indefinite voltage w) = calls w @
             [SelectCS 0, SpiWrite [0x30, upper_byte indefinite, lower_byte indefinite] 0x01,
              Usleep 100, DisableCS 0]"
proof -
  have l: "fp_less (decode32 voltage) (decode32 VOLTAGE_MIN) = False"
     "fp_less (decode32 VOLTAGE_MAX) (decode32 voltage) = False"
    by (simp_all add: assms decode32_VOLTAGE_MAX)
  have c: "voltageCode_expr voltage = None" by (simp add: voltageCode_expr_def assms)
  have s: "setVoltage B indefinite voltage w =
             disableCS B 0 (usleep 100 (spiWrite B
               [0x30, upper_byte indefinite, lower_byte indefinite] EPOUT (selectCS B 0 w)))"
    using l by (simp add: setVoltage_accepted c)
  show ?thesis using l c by (simp add: assms s bridge_calls EPOUT_def)
qed

text \<open>
  An instance: the quiet not-a-number \<^verbatim>\<open>0x7FC00000\<close> on the bridge stub with its
  handle held, which reports no error.
\<close>

theorem setVoltage_nan_witness:
  "decode32 (float32_of_bits 0x7FC00000) = NaN
   \<and> calls (setVoltage stub 0 (float32_of_bits 0x7FC00000) (fresh\<lparr>cp2130 := True\<rparr>)) =
        [SelectCS 0, SpiWrite [0x30, 0x00, 0x00] 0x01, Usleep 100, DisableCS 0]
   \<and> errcnt (setVoltage stub 0 (float32_of_bits 0x7FC00000) (fresh\<lparr>cp2130 := True\<rparr>)) = 0
   \<and> errstr (setVoltage stub 0 (float32_of_bits 0x7FC00000) (fresh\<lparr>cp2130 := True\<rparr>)) = []"
proof -
  have h: "decode32 (float32_of_bits 0x7FC00000) = NaN" by (simp add: fp_eval)
  show ?thesis
    using h setVoltage_nan [OF h, of stub 0 "fresh\<lparr>cp2130 := True\<rparr>"]
    by (simp add: stub_eval)
qed

subsection \<open>The DAC word\<close>

text \<open>
  C6. For every 12-bit code, from 0 to 4095, the two data bytes the code sends are
  \<^verbatim>\<open>code >> 4\<close> and \<^verbatim>\<open>(code << 4) & 0xF0\<close>, and reassembling them as
  \<^verbatim>\<open>(byte0 << 4) | (byte1 >> 4)\<close> gives back the code.
\<close>

theorem dac_word_roundtrip:
  assumes "code \<le> 4095"
  shows "upper_byte code = ucast (drop_bit 4 code)
         \<and> lower_byte code = ucast (push_bit 4 code AND 0xF0)
         \<and> reassemble (upper_byte code) (lower_byte code) = code"
proof -
  have "code < 2 ^ 12" using assms by (simp add: word_le_def word_less_def)
  then have "code AND mask 12 = code" by (rule less_mask_eq)
  then have "take_bit 12 code = code" by (simp add: take_bit_eq_mask)
  then have b: "\<And>n. bit code n \<Longrightarrow> n < 12" by (metis bit_take_bit_iff)
  have m: "(0xF0 :: 16 word) = push_bit 4 (mask 4)"
    by (simp add: mask_eq_exp_minus_1 push_bit_eq_mult)
  have 1: "lower_byte code = ucast (push_bit 4 code AND 0xF0)"
    unfolding lower_byte_def m
    by (rule bit_word_eqI) (auto simp add: bit_simps)
  have 2: "reassemble (upper_byte code) (lower_byte code) = code"
    unfolding reassemble_def upper_byte_def lower_byte_def
    by (rule bit_word_eqI) (auto simp add: bit_simps dest: b)
  show ?thesis using 1 2 by (simp add: upper_byte_eq)
qed

text \<open>An instance: the code \<^verbatim>\<open>0xABC\<close> is sent as \<^verbatim>\<open>0xAB 0xC0\<close>.\<close>

theorem dac_word_roundtrip_witness:
  "(0xABC :: 16 word) \<le> 4095
   \<and> upper_byte 0xABC = 0xAB \<and> lower_byte 0xABC = 0xC0 \<and> reassemble 0xAB 0xC0 = 0xABC"
proof -
  have h: "(0xABC :: 16 word) \<le> 4095" by simp
  have u: "upper_byte 0xABC = 0xAB" by (simp add: upper_byte_def)
  have l: "lower_byte 0xABC = 0xC0" by (simp add: lower_byte_def)
  from dac_word_roundtrip [OF h] have "reassemble (upper_byte 0xABC) (lower_byte 0xABC) = 0xABC"
    by (rule conjunct2 [THEN conjunct2])
  then have "reassemble 0xAB 0xC0 = 0xABC" by (simp only: u l)
  with h u l show ?thesis by (simp only: simp_thms)
qed

subsection \<open>Setup\<close>

text \<open>
  C5. \<^verbatim>\<open>setup\<close> always makes its six calls in this order: configure the SPI mode
  of channel 0 (push-pull chip select, 750 kHz, CPOL0, CPHA0), disable the SPI delays of
  channel 0, select chip-select 0, write the three bytes \<^verbatim>\<open>0x70 0x00 0x00\<close> to
  endpoint \<^verbatim>\<open>0x01\<close>, wait 100 microseconds, deselect chip-select 0. This holds for
  every bridge and every state before, whatever the bridge puts into the accumulator at
  any step: each step runs on the state the previous one left.
\<close>

theorem setup_six_steps:
  "calls (setup B w) = calls w @
     [ConfigureSPIMode 0 \<lparr>csmode = CSMODEPP, cfrq = CFRQ750K, cpol = CPOL0, cpha = CPHA0\<rparr>,
      DisableSPIDelays 0,
      SelectCS 0,
      SpiWrite [0x70, 0x00, 0x00] 0x01,
      Usleep 100,
      DisableCS 0]
   \<and> setup B w =
      disableCS B 0 (usleep 100 (spiWrite B [0x70, 0x00, 0x00] 0x01 (selectCS B 0
        (disableSPIDelays B 0 (configureSPIMode B 0
          \<lparr>csmode = CSMODEPP, cfrq = CFRQ750K, cpol = CPOL0, cpha = CPHA0\<rparr> w)))))"
  by (simp add: setup_def Let_def bridge_calls EPOUT_def)

subsection \<open>Opening and closing\<close>

text \<open>
  C7. For every serial, given or omitted, \<^verbatim>\<open>open\<close> is the bridge's
  \<^verbatim>\<open>open\<close> called once with vendor ID \<^verbatim>\<open>0x10C4\<close>, product ID \<^verbatim>\<open>0x8C46\<close> and
  that serial; it returns the bridge's status unchanged and touches nothing else. With
  a bridge that keeps the specification's contract, the status is one of success,
  initialization failure, not found, busy, and after any status other than success
  \<^verbatim>\<open>isOpen\<close> is false.
\<close>

theorem open_status:
  assumes "open_contract B"
  shows "fst (open B serial w) \<in> {SUCCESS B, ERROR_INIT B, ERROR_NOT_FOUND B, ERROR_BUSY B}
         \<and> (fst (open B serial w) \<noteq> SUCCESS B \<longrightarrow> \<not> isOpen B (snd (open B serial w)))
         \<and> (fst (open B serial w), cp2130 (snd (open B serial w)))
              = cp_open B 0x10C4 0x8C46 serial (cp2130 w)
         \<and> calls (snd (open B serial w)) = calls w @ [Open 0x10C4 0x8C46 serial]
         \<and> accumulator (snd (open B serial w)) = accumulator w"
proof -
  from assms have c:
    "fst (cp_open B VID PID serial (cp2130 w)) \<in> {SUCCESS B, ERROR_INIT B, ERROR_NOT_FOUND B, ERROR_BUSY B}"
    "fst (cp_open B VID PID serial (cp2130 w)) \<noteq> SUCCESS B
       \<longrightarrow> \<not> cp_isOpen B (snd (cp_open B VID PID serial (cp2130 w)))"
    unfolding open_contract_def by blast+
  have o: "fst (open B serial w) = fst (cp_open B VID PID serial (cp2130 w))"
    "cp2130 (snd (open B serial w)) = snd (cp_open B VID PID serial (cp2130 w))"
    "calls (snd (open B serial w)) = calls w @ [Open VID PID serial]"
    "accumulator (snd (open B serial w)) = accumulator w"
    by (simp_all add: open_def accumulator_def split: prod.splits)
  show ?thesis using c by (simp add: o isOpen_def) (simp add: VID_def PID_def)
qed

text \<open>
  An instance on the bridge stub: the serial "0002" is not attached, the status
  is not-found and the device is not open; with the serial omitted the unit opens.
\<close>

theorem open_status_witness:
  "open_contract stub
   \<and> fst (open stub ''0002'' fresh) = ERROR_NOT_FOUND stub
   \<and> isOpen stub (snd (open stub ''0002'' fresh)) = False
   \<and> fst (open stub [] fresh) = SUCCESS stub"
proof -
  have h: "open_contract stub" by (rule open_contract_stub)
  note t = open_status [OF h, of "''0002''" fresh]
  have s: "fst (open stub ''0002'' fresh) = ERROR_NOT_FOUND stub"
    by (simp add: open_def stub_def fresh_def VID_def PID_def)
  then have "fst (open stub ''0002'' fresh) \<noteq> SUCCESS stub" by (simp add: stub_def)
  with t have "\<not> isOpen stub (snd (open stub ''0002'' fresh))" by blast
  moreover have "fst (open stub [] fresh) = SUCCESS stub"
    by (simp add: open_def stub_def fresh_def VID_def PID_def)
  ultimately show ?thesis using h s by simp
qed

text \<open>
  C8. \<^verbatim>\<open>close\<close> takes no accumulator and always returns. With a bridge that keeps
  the specification's contract, the device is not open after \<^verbatim>\<open>close\<close>, a second
  \<^verbatim>\<open>close\<close> leaves the bridge as the first left it, \<^verbatim>\<open>close\<close> on a device that
  is not open leaves the bridge unchanged, and the caller's accumulator is untouched in
  every case.
\<close>

theorem close_idempotent:
  assumes "close_contract B"
  shows "\<not> isOpen B (close B w)
         \<and> cp2130 (close B (close B w)) = cp2130 (close B w)
         \<and> (\<not> isOpen B w \<longrightarrow> cp2130 (close B w) = cp2130 w)
         \<and> accumulator (close B w) = accumulator w
         \<and> accumulator (close B (close B w)) = accumulator w"
proof -
  from assms have c: "\<And>b. \<not> cp_isOpen B (cp_close B b)"
    "\<And>b. \<not> cp_isOpen B b \<Longrightarrow> cp_close B b = b"
    unfolding close_contract_def by blast+
  have "cp_close B (cp_close B (cp2130 w)) = cp_close B (cp2130 w)" by (rule c(2)) (rule c(1))
  then show ?thesis using c by (simp add: close_def isOpen_def accumulator_def)
qed

text \<open>
  An instance on the bridge stub: open then close twice, and close on a device that
  was never opened.
\<close>

theorem close_idempotent_witness:
  "close_contract stub
   \<and> isOpen stub (snd (open stub [] fresh)) = True
   \<and> isOpen stub (close stub (snd (open stub [] fresh))) = False
   \<and> cp2130 (close stub (close stub (snd (open stub [] fresh)))) = False
   \<and> cp2130 (close stub fresh) = cp2130 fresh
   \<and> accumulator (close stub (close stub fresh)) = (0, [])"
proof -
  have h: "close_contract stub" by (rule close_contract_stub)
  note t1 = close_idempotent [OF h, of "snd (open stub [] fresh)"]
  note t2 = close_idempotent [OF h, of fresh]
  have o: "isOpen stub (snd (open stub [] fresh)) = True"
    by (simp add: isOpen_def open_def stub_def fresh_def VID_def PID_def)
  have n: "\<not> isOpen stub fresh" by (simp add: isOpen_def stub_def fresh_def)
  have a: "accumulator fresh = (0, [])" by (simp add: accumulator_def fresh_def)
  from t1 have 1: "isOpen stub (close stub (snd (open stub [] fresh))) = False" by simp
  from t1 have "cp2130 (close stub (close stub (snd (open stub [] fresh))))
      = cp2130 (close stub (snd (open stub [] fresh)))" by simp
  also from 1 have "\<dots> = False" by (simp add: isOpen_def stub_def)
  finally have 2: "cp2130 (close stub (close stub (snd (open stub [] fresh)))) = False" .
  from t2 n have 3: "cp2130 (close stub fresh) = cp2130 fresh" by blast
  from t2 a have 4: "accumulator (close stub (close stub fresh)) = (0, [])" by simp
  show ?thesis using h o 1 2 3 4 by simp
qed

subsection \<open>The error accumulator\<close>



subsection \<open>Hardware revision\<close>

text \<open>
  C3, as the code has it. \<^verbatim>\<open>hardwareRevision\<close> is a function of the configuration
  record alone. On the boundary cases of the specification it returns: majrel 1,
  minrel 0 gives "0"; majrel 2, minrel 0 gives "A"; majrel 2, minrel 5 gives "A5";
  majrel 1, minrel 3 gives "3"; majrel 28, minrel 0 gives the empty string. With
  majrel 1 no letter is appended, so the result is the minor release alone.
\<close>

theorem hardwareRevision_boundary_cases:
  "hardwareRevision \<lparr>majrel = 1, minrel = 0\<rparr> = ''0'' \<and>
   hardwareRevision \<lparr>majrel = 2, minrel = 0\<rparr> = ''A'' \<and>
   hardwareRevision \<lparr>majrel = 2, minrel = 5\<rparr> = ''A5'' \<and>
   hardwareRevision \<lparr>majrel = 1, minrel = 3\<rparr> = ''3'' \<and>
   hardwareRevision \<lparr>majrel = 28, minrel = 0\<rparr> = ''''"
  by code_simp

text \<open>
  The values the specification lists for majrel 1 are not the ones computed: minrel 0
  gives "0", not "1", and minrel 3 gives "3", not "13".
\<close>

theorem hardwareRevision_spec_cases_fail:
  "\<not> (hardwareRevision \<lparr>majrel = 1, minrel = 0\<rparr> = ''1'' \<and>
      hardwareRevision \<lparr>majrel = 2, minrel = 0\<rparr> = ''A'' \<and>
      hardwareRevision \<lparr>majrel = 2, minrel = 5\<rparr> = ''A5'' \<and>
      hardwareRevision \<lparr>majrel = 1, minrel = 3\<rparr> = ''13'' \<and>
      hardwareRevision \<lparr>majrel = 28, minrel = 0\<rparr> = '''')"
  by code_simp

text \<open>
  C4. For every configuration record, \<^verbatim>\<open>hardwareRevision\<close> returns a letter part
  followed by a digit part. The letter part is the single character
  \<^verbatim>\<open>'A' + (majrel - 2)\<close> exactly when \<open>1 < majrel \<le> 27\<close> and is empty otherwise;
  the digit part is the decimal form of minrel exactly when \<open>majrel = 1\<close> or
  \<open>minrel \<noteq> 0\<close> and is empty otherwise.
\<close>

theorem hardwareRevision_parts:
  "hardwareRevision config =
     (if 1 < majrel config \<and> majrel config \<le> 27
      then [char_of (of_char (CHR ''A'') + (unat (majrel config) - 2))] else [])
     @ (if majrel config = 1 \<or> minrel config \<noteq> 0
        then decimal (unat (minrel config)) else [])"
proof -
  have "hardwareRevision config =
     (if 1 < majrel config \<and> majrel config \<le> 27
      then [char_of (uint (majrel config) + of_char (CHR ''A'') - 2)] else [])
     @ (if majrel config = 1 \<or> minrel config \<noteq> 0
        then ostream_int (uint (minrel config)) else [])"
    unfolding hardwareRevision_def Let_def by (simp only: append_Nil split: if_splits) simp
  moreover have "(if 1 < majrel config \<and> majrel config \<le> 27
      then [char_of (uint (majrel config) + of_char (CHR ''A'') - 2)] else [])
    = (if 1 < majrel config \<and> majrel config \<le> 27
      then [char_of (of_char (CHR ''A'') + (unat (majrel config) - 2))] else [])"
  proof (cases "1 < majrel config")
    case True
    then show ?thesis by (simp only: letter_char)
  next
    case False
    then show ?thesis by (simp only: simp_thms if_False)
  qed
  ultimately show ?thesis by (simp only: ostream_int_uint)
qed

end
